theory Spec2Isabelle
  imports Complex_Main "HOL-Library.AList"
begin

section \<open>Characters and Python string helpers\<close>

text \<open>
  Lines of the capture log are Python \<open>str\<close> values. They are modelled as \<open>string\<close>
  (a \<open>char list\<close>), one \<open>char\<close> per code point below 256. The character classes of
  Python's \<open>re\<close> module (on \<open>str\<close> patterns) and of \<open>str.strip\<close> are, on that range:
  \<open>\d\<close> the ten ASCII digits; \<open>\s\<close> the code points 9 to 13, 28 to 32, 133 and 160;
  \<open>.\<close> everything but the line feed.
\<close>

definition is_digit :: "char \<Rightarrow> bool" where
  "is_digit c = (c \<in> set ''0123456789'')"

definition is_space :: "char \<Rightarrow> bool" where
  "is_space c = (c \<in> set [CHR 0x09, CHR 0x0A, CHR 0x0B, CHR 0x0C, CHR 0x0D,
                           CHR 0x1C, CHR 0x1D, CHR 0x1E, CHR 0x1F, CHR 0x20,
                           CHR 0x85, CHR 0xA0])"

text \<open>\<open>str.strip()\<close>: drop leading and trailing whitespace.\<close>

definition strip :: "string \<Rightarrow> string" where
  "strip s = rev (dropWhile is_space (rev (dropWhile is_space s)))"

text \<open>The value of a run of decimal digits, most significant first.\<close>

definition digit_val :: "char \<Rightarrow> int" where
  "digit_val c = of_char c - 48"

definition digits_val :: "string \<Rightarrow> int" where
  "digits_val s = foldl (\<lambda>a c. 10 * a + digit_val c) 0 s"

section \<open>Python exceptions\<close>

datatype error = AttributeError | ValueError | TypeError | ZeroDivisionError

definition bindE :: "error + 'a \<Rightarrow> ('a \<Rightarrow> error + 'b) \<Rightarrow> error + 'b" where
  "bindE m f = (case m of Inl e \<Rightarrow> Inl e | Inr x \<Rightarrow> f x)"

text \<open>
  \<open>int(s)\<close> on a \<open>str\<close>: surrounding whitespace is dropped, one sign is allowed, and
  the body is decimal digits in which single underscores may separate digits. Anything
  else raises \<open>ValueError\<close>. (The interpreter's configurable limit on the number of
  digits of a conversion is outside the model: Python integers are unbounded.)
\<close>

fun int_body_ok :: "string \<Rightarrow> bool" where
  "int_body_ok [] = False"
| "int_body_ok [c] = is_digit c"
| "int_body_ok (c # d # r) =
     (is_digit c \<and> (if d = CHR ''_'' then int_body_ok r else int_body_ok (d # r)))"

definition py_int :: "string \<Rightarrow> error + int" where
  "py_int s =
     (let t = strip s;
          neg = (case t of [] \<Rightarrow> False | c # _ \<Rightarrow> c = CHR ''-'');
          body = (case t of [] \<Rightarrow> []
                  | c # r \<Rightarrow> if c = CHR ''-'' \<or> c = CHR ''+'' then r else t)
      in if int_body_ok body
         then (let v = digits_val (filter (\<lambda>c. c \<noteq> CHR ''_'') body)
               in Inr (if neg then - v else v))
         else Inl ValueError)"

section \<open>Regular expressions\<close>

text \<open>
  The fragment of Python's \<open>re\<close> syntax that the program's patterns use, with the
  matching order of the backtracking matcher: a greedy repetition tries the longest
  run first, a lazy one the shortest, an optional part is tried before it is skipped,
  the left alternative before the right. Groups are numbered as in the pattern.
\<close>

datatype cls = Dig | Spc | NSpc | Dot

fun in_cls :: "cls \<Rightarrow> char \<Rightarrow> bool" where
  "in_cls Dig c = is_digit c"
| "in_cls Spc c = is_space c"
| "in_cls NSpc c = (\<not> is_space c)"
| "in_cls Dot c = (c \<noteq> CHR 0x0A)"

datatype re =
    Lit string
  | One cls
  | Star cls
  | StarLazy cls
  | Plus cls
  | PlusLazy cls
  | Cat re re
  | Alt re re
  | Opt re
  | Grp nat re

text \<open>
  The matcher works on a stack of pending items: a pattern still to match, or the end
  of a group opened when the rest of the input was the recorded string.
\<close>

datatype item = R re | Close nat string

type_synonym caps = "(nat \<times> string) list"

fun lit_strip :: "string \<Rightarrow> string \<Rightarrow> string option" where
  "lit_strip [] s = Some s"
| "lit_strip (p # ps) [] = None"
| "lit_strip (p # ps) (x # xs) = (if p = x then lit_strip ps xs else None)"

fun re_weight :: "re \<Rightarrow> nat" where
  "re_weight (Lit p) = 1"
| "re_weight (One c) = 1"
| "re_weight (Star c) = 1"
| "re_weight (StarLazy c) = 1"
| "re_weight (Plus c) = 3"
| "re_weight (PlusLazy c) = 3"
| "re_weight (Cat a b) = Suc (re_weight a + re_weight b)"
| "re_weight (Alt a b) = Suc (re_weight a + re_weight b)"
| "re_weight (Opt a) = Suc (re_weight a)"
| "re_weight (Grp n a) = Suc (Suc (re_weight a))"

fun item_weight :: "item \<Rightarrow> nat" where
  "item_weight (R r) = re_weight r"
| "item_weight (Close n s) = 1"

function rm :: "item list \<Rightarrow> string \<Rightarrow> caps \<Rightarrow> (caps \<times> string) option" where
  "rm [] s c = Some (c, s)"
| "rm (Close n s0 # k) s c = rm k s (AList.update n (take (length s0 - length s) s0) c)"
| "rm (R (Lit p) # k) s c =
     (case lit_strip p s of None \<Rightarrow> None | Some t \<Rightarrow> rm k t c)"
| "rm (R (One cl) # k) [] c = None"
| "rm (R (One cl) # k) (x # xs) c = (if in_cls cl x then rm k xs c else None)"
| "rm (R (Star cl) # k) [] c = rm k [] c"
| "rm (R (Star cl) # k) (x # xs) c =
     (if in_cls cl x
      then (case rm (R (Star cl) # k) xs c of
              Some r \<Rightarrow> Some r
            | None \<Rightarrow> rm k (x # xs) c)
      else rm k (x # xs) c)"
| "rm (R (StarLazy cl) # k) [] c = rm k [] c"
| "rm (R (StarLazy cl) # k) (x # xs) c =
     (case rm k (x # xs) c of
        Some r \<Rightarrow> Some r
      | None \<Rightarrow> if in_cls cl x then rm (R (StarLazy cl) # k) xs c else None)"
| "rm (R (Plus cl) # k) s c = rm (R (One cl) # R (Star cl) # k) s c"
| "rm (R (PlusLazy cl) # k) s c = rm (R (One cl) # R (StarLazy cl) # k) s c"
| "rm (R (Cat a b) # k) s c = rm (R a # R b # k) s c"
| "rm (R (Alt a b) # k) s c =
     (case rm (R a # k) s c of Some r \<Rightarrow> Some r | None \<Rightarrow> rm (R b # k) s c)"
| "rm (R (Opt a) # k) s c =
     (case rm (R a # k) s c of Some r \<Rightarrow> Some r | None \<Rightarrow> rm k s c)"
| "rm (R (Grp n a) # k) s c = rm (R a # Close n s # k) s c"
  by pat_completeness auto
termination
  by (relation "inv_image (less_than <*lex*> less_than)
                  (\<lambda>(k, s, c). (sum_list (map item_weight k), length s))")
     auto

text \<open>\<open>pattern.match(line)\<close>: a match starting at the first character.\<close>

definition re_match :: "re \<Rightarrow> string \<Rightarrow> caps option" where
  "re_match r s = map_option fst (rm [R r] s [])"

text \<open>\<open>pattern.search(line)\<close>: the first position from the left where a match starts.\<close>

fun re_search :: "re \<Rightarrow> string \<Rightarrow> caps option" where
  "re_search r [] = re_match r []"
| "re_search r (x # xs) =
     (case re_match r (x # xs) of Some c \<Rightarrow> Some c | None \<Rightarrow> re_search r xs)"

text \<open>\<open>m.group(n)\<close>: the text of group \<open>n\<close>, or \<open>None\<close> when the group took no part.\<close>

definition group :: "caps \<Rightarrow> nat \<Rightarrow> string option" where
  "group c n = map_of c n"


text \<open>A pattern written as a sequence of parts.\<close>

fun seq :: "re list \<Rightarrow> re" where
  "seq [] = Lit []"
| "seq [a] = a"
| "seq (a # b # r) = Cat a (seq (b # r))"

section \<open>Timestamps\<close>

text \<open>
  \<open>parse_log_ts\<close> is \<open>datetime.strptime(ts, '%m-%d-%y %H:%M:%S')\<close>. Every call site
  passes the text of a pattern group of the shape
  \<open>\d{2}-\d{2}-\d{2} \d{2}:\d{2}:\d{2}\<close>; on that shape \<open>strptime\<close> accepts exactly
  the months 01 to 12, the days that exist in the month, the hours 00 to 23 and the
  minutes and seconds 00 to 59, and raises \<open>ValueError\<close> otherwise. A two-digit year
  below 69 is in the 2000s, the others in the 1900s. (Looser shapes that \<open>strptime\<close>
  would also take, such as one-digit fields, never reach it and are rejected here.)
\<close>

record datetime =
  dt_year :: int
  dt_month :: int
  dt_day :: int
  dt_hour :: int
  dt_minute :: int
  dt_second :: int

definition is_leap :: "int \<Rightarrow> bool" where
  "is_leap y = (y mod 4 = 0 \<and> (y mod 100 \<noteq> 0 \<or> y mod 400 = 0))"

definition days_in_month :: "int \<Rightarrow> int \<Rightarrow> int" where
  "days_in_month y m =
     (if m = 2 then (if is_leap y then 29 else 28)
      else if m = 4 \<or> m = 6 \<or> m = 9 \<or> m = 11 then 30 else 31)"

definition days_before_year :: "int \<Rightarrow> int" where
  "days_before_year y = (y - 1) * 365 + (y - 1) div 4 - (y - 1) div 100 + (y - 1) div 400"

definition days_before_month :: "int \<Rightarrow> int \<Rightarrow> int" where
  "days_before_month y m = sum_list (map (days_in_month y) [1..m - 1])"

definition toordinal :: "datetime \<Rightarrow> int" where
  "toordinal d = days_before_year (dt_year d) + days_before_month (dt_year d) (dt_month d)
                 + dt_day d"

text \<open>Seconds since the start of day 0 of the proleptic calendar.\<close>

definition dt_secs :: "datetime \<Rightarrow> int" where
  "dt_secs d = toordinal d * 86400 + dt_hour d * 3600 + dt_minute d * 60 + dt_second d"

definition num2 :: "string \<Rightarrow> nat \<Rightarrow> int" where
  "num2 s i = 10 * digit_val (s ! i) + digit_val (s ! Suc i)"

definition ts_shape :: "string \<Rightarrow> bool" where
  "ts_shape s =
     (length s = 17
      \<and> list_all (\<lambda>i. is_digit (s ! i)) [0, 1, 3, 4, 6, 7, 9, 10, 12, 13, 15, 16]
      \<and> s ! 2 = CHR ''-'' \<and> s ! 5 = CHR ''-'' \<and> s ! 8 = CHR '' ''
      \<and> s ! 11 = CHR '':'' \<and> s ! 14 = CHR '':'')"

definition parse_log_ts :: "string \<Rightarrow> error + datetime" where
  "parse_log_ts s =
     (if \<not> ts_shape s then Inl ValueError
      else
        let mo = num2 s 0; dd = num2 s 3; yy = num2 s 6;
            hh = num2 s 9; mi = num2 s 12; ss = num2 s 15;
            y = (if yy \<le> 68 then 2000 + yy else 1900 + yy)
        in if 1 \<le> mo \<and> mo \<le> 12 \<and> 1 \<le> dd \<and> dd \<le> days_in_month y mo
              \<and> hh \<le> 23 \<and> mi \<le> 59 \<and> ss \<le> 59
           then Inr \<lparr>dt_year = y, dt_month = mo, dt_day = dd,
                     dt_hour = hh, dt_minute = mi, dt_second = ss\<rparr>
           else Inl ValueError)"

text \<open>
  \<open>parse_log_ts(m.group(n))\<close>: a group that took no part is \<open>None\<close>, on which
  \<open>strptime\<close> raises \<open>TypeError\<close>.
\<close>

definition parse_group_ts :: "caps \<Rightarrow> nat \<Rightarrow> error + datetime" where
  "parse_group_ts m n = (case group m n of None \<Rightarrow> Inl TypeError | Some t \<Rightarrow> parse_log_ts t)"

text \<open>
  \<open>int((a - b).total_seconds())\<close> on optional timestamps: subtracting with a \<open>None\<close>
  operand raises \<open>TypeError\<close>; otherwise the difference in whole seconds.
\<close>

definition secs_between :: "datetime option \<Rightarrow> datetime option \<Rightarrow> error + int" where
  "secs_between a b =
     (case a of None \<Rightarrow> Inl TypeError
      | Some x \<Rightarrow> (case b of None \<Rightarrow> Inl TypeError | Some y \<Rightarrow> Inr (dt_secs x - dt_secs y)))"

section \<open>Call records and the process-wide counters\<close>

datatype ConnectionType = MODEM | DIRECTSERIAL

datatype pyval = VInt int | VStr string

text \<open>
  The fields of \<open>CallRecord\<close> that the program reads or writes. \<open>remote_reliable\<close> is
  declared \<open>Optional[bool]\<close> but is assigned the text of a pattern group, so it is a
  string here. \<open>remote_ansi_detected\<close> is not a declared field: the banner branch
  creates it on the instance (\<open>None\<close> also stands for "not created"; nothing reads it).
  \<open>ati6\<close> and \<open>ati11\<close> hold a parser object, modelled by its \<open>data\<close> dictionary.
  The per-instance copies of the four counters always hold their default 0 and are
  left out; the counters that count are the class attributes, in \<open>counters\<close>.
\<close>

record CallRecord =
  connected :: "bool option"
  start_qmodem :: "datetime option"
  start_dial :: "datetime option"
  connect_time :: "datetime option"
  start_download :: "datetime option"
  end_download :: "datetime option"
  download_success :: "bool option"
  end_call :: "datetime option"
  exit_qmodem :: "datetime option"
  aborted_time :: "datetime option"
  abort_reason :: "string option"
  connect_type :: ConnectionType
  remote_connect_bps :: "int option"
  remote_reliable :: "string option"
  remote_ansi :: "bool option"
  download_cps :: "int option"
  ati6 :: "(string \<times> pyval) list option"
  ati11 :: "(string \<times> pyval) list option"
  remote_ansi_detected :: "string option"

record counters =
  count_start_dial :: nat
  count_connected :: nat
  count_download_failure :: nat
  count_download_success :: nat

definition counters0 :: counters where
  "counters0 = \<lparr>count_start_dial = 0, count_connected = 0,
                 count_download_failure = 0, count_download_success = 0\<rparr>"

text \<open>\<open>CallRecord()\<close>: the declared defaults; \<open>__post_init__\<close> counts the attempt.\<close>

definition new_record :: CallRecord where
  "new_record = \<lparr>connected = None, start_qmodem = None, start_dial = None,
     connect_time = None, start_download = None, end_download = None,
     download_success = None, end_call = None, exit_qmodem = None, aborted_time = None,
     abort_reason = None, connect_type = MODEM, remote_connect_bps = None,
     remote_reliable = None, remote_ansi = None, download_cps = None,
     ati6 = None, ati11 = None, remote_ansi_detected = None\<rparr>"

definition post_init :: "counters \<Rightarrow> counters" where
  "post_init c = c\<lparr>count_start_dial := count_start_dial c + 1\<rparr>"

definition mark_connected :: "bool \<Rightarrow> CallRecord \<times> counters \<Rightarrow> CallRecord \<times> counters" where
  "mark_connected success rc =
     (let r = (fst rc)\<lparr>connected := Some success\<rparr>
      in if success then (r, (snd rc)\<lparr>count_connected := count_connected (snd rc) + 1\<rparr>)
         else (r, snd rc))"

definition mark_download_success ::
    "bool \<Rightarrow> CallRecord \<times> counters \<Rightarrow> CallRecord \<times> counters" where
  "mark_download_success success rc =
     (if success
      then ((fst rc)\<lparr>download_success := Some True\<rparr>,
            (snd rc)\<lparr>count_download_success := count_download_success (snd rc) + 1\<rparr>)
      else ((fst rc)\<lparr>download_success := Some False\<rparr>,
            (snd rc)\<lparr>count_download_failure := count_download_failure (snd rc) + 1\<rparr>))"

definition connect_failure_count :: "counters \<Rightarrow> int" where
  "connect_failure_count c = int (count_start_dial c) - int (count_connected c)"

text \<open>
  The percentages are Python floats. Floating-point arithmetic is not computed in the
  model: a float is one of the literals of the program (\<open>0.0\<close>, \<open>100.0\<close>), or the
  quotient \<open>a / b\<close> of two counters, or such a quotient times an integer, and it is
  kept as that expression with its operands. What the model does decide is which
  expression is evaluated, and that \<open>/\<close> raises \<open>ZeroDivisionError\<close> on a zero divisor.
\<close>

datatype pyfloat = FLit int | FDiv nat nat | FMul pyfloat int

definition py_truediv :: "nat \<Rightarrow> nat \<Rightarrow> error + pyfloat" where
  "py_truediv a b = (if b = 0 then Inl ZeroDivisionError else Inr (FDiv a b))"

definition connect_success_percent :: "counters \<Rightarrow> error + pyfloat" where
  "connect_success_percent c =
     (if count_start_dial c = 0 then Inr (FLit 0)
      else bindE (py_truediv (count_connected c) (count_start_dial c))
             (\<lambda>q. Inr (FMul q 100)))"

function str_nat :: "nat \<Rightarrow> string" where
  "str_nat n = (if n < 10 then [char_of (48 + n)]
                else str_nat (n div 10) @ [char_of (48 + n mod 10)])"
  by pat_completeness auto
termination
  by (relation "measure id") auto

definition str_int :: "int \<Rightarrow> string" where
  "str_int i = (if i < 0 then CHR ''-'' # str_nat (nat (- i)) else str_nat (nat i))"

definition termination_reason :: "CallRecord \<Rightarrow> error + string" where
  "termination_reason r =
     (if aborted_time r \<noteq> None
      then bindE (secs_between (aborted_time r) (connect_time r))
             (\<lambda>aborted_after. Inr (''ABORTED after '' @ str_int aborted_after @ '' sec.''))
      else if end_call r \<noteq> None then Inr ''normal''
      else Inr ''unknown'')"

definition call_duration :: "CallRecord \<Rightarrow> error + int option" where
  "call_duration r =
     (if connect_type r = DIRECTSERIAL
      then bindE (secs_between (exit_qmodem r) (start_qmodem r)) (\<lambda>d. Inr (Some d))
      else if end_call r \<noteq> None
      then bindE (secs_between (end_call r) (connect_time r)) (\<lambda>d. Inr (Some d))
      else if aborted_time r \<noteq> None
      then bindE (secs_between (aborted_time r) (connect_time r)) (\<lambda>d. Inr (Some d))
      else if exit_qmodem r \<noteq> None
      then bindE (secs_between (exit_qmodem r) (connect_time r)) (\<lambda>d. Inr (Some d))
      else Inr None)"

definition download_duration :: "CallRecord \<Rightarrow> error + int option" where
  "download_duration r =
     (if download_success r = Some True
      then bindE (secs_between (end_download r) (start_download r)) (\<lambda>d. Inr (Some d))
      else Inr None)"

definition download_success_msg :: "CallRecord \<Rightarrow> string option" where
  "download_success_msg r =
     (if download_success r = Some True then Some ''SUCCESS''
      else if download_success r = Some False then Some ''FAILED''
      else None)"

definition handshake_duration :: "CallRecord \<Rightarrow> error + int option" where
  "handshake_duration r =
     (if connect_type r = DIRECTSERIAL then Inr (Some 0)
      else if start_dial r \<noteq> None \<and> connect_time r \<noteq> None
      then bindE (secs_between (connect_time r) (start_dial r)) (\<lambda>d. Inr (Some d))
      else Inr None)"

text \<open>
  The download success percentage of \<open>report_aggregates\<close> (the assignment to
  \<open>download_success_pct\<close>).
\<close>

definition download_success_pct :: "counters \<Rightarrow> error + pyfloat" where
  "download_success_pct c =
     (if count_download_failure c = 0 then Inr (FLit 100)
      else bindE (py_truediv (count_download_success c)
                    (count_download_success c + count_download_failure c))
             (\<lambda>q. Inr (FMul q 100)))"


section \<open>The diagnostic-block parsers\<close>

text \<open>The four line patterns of \<open>ATIParserBase.parse_output\<close>, in the order tried.\<close>

definition p_vendor :: re where
  "p_vendor = Lit ''USRobotics''"

definition p_two_pairs :: re where
  "p_two_pairs = seq [Grp 1 (PlusLazy Dot), Plus Spc, Grp 2 (Plus Dig), Plus Spc,
                      Grp 3 (PlusLazy Dot), Plus Spc, Grp 4 (Plus Dig)]"

definition p_number :: re where
  "p_number = seq [Grp 1 (PlusLazy Dot), One Spc, Plus Spc, Grp 2 (Plus Dig)]"

definition p_text :: re where
  "p_text = seq [Grp 1 (PlusLazy Dot), One Spc, Plus Spc, Grp 2 (Plus Dot)]"

text \<open>
  \<open>mapped_name(key.strip())\<close> under the walrus test: the identifier of a label, when
  the mapping has the label and the identifier is not the empty string. A group that
  took no part is \<open>None\<close>, and \<open>None.strip()\<close> raises \<open>AttributeError\<close>.
\<close>

definition mapped_name :: "(string \<times> string) list \<Rightarrow> string \<Rightarrow> string option" where
  "mapped_name mapping in_key = map_of mapping in_key"

definition store_int ::
    "(string \<times> string) list \<Rightarrow> caps \<Rightarrow> nat \<Rightarrow> nat \<Rightarrow> (string \<times> pyval) list
     \<Rightarrow> error + (string \<times> pyval) list" where
  "store_int mapping m kg vg data =
     (case group m kg of None \<Rightarrow> Inl AttributeError
      | Some key \<Rightarrow>
          (case mapped_name mapping (strip key) of
             None \<Rightarrow> Inr data
           | Some k \<Rightarrow>
               if k = [] then Inr data
               else (case group m vg of None \<Rightarrow> Inl TypeError
                     | Some v \<Rightarrow> bindE (py_int v) (\<lambda>n. Inr (AList.update k (VInt n) data)))))"

definition store_text ::
    "(string \<times> string) list \<Rightarrow> caps \<Rightarrow> nat \<Rightarrow> nat \<Rightarrow> (string \<times> pyval) list
     \<Rightarrow> error + (string \<times> pyval) list" where
  "store_text mapping m kg vg data =
     (case group m kg of None \<Rightarrow> Inl AttributeError
      | Some key \<Rightarrow>
          (case mapped_name mapping (strip key) of
             None \<Rightarrow> Inr data
           | Some k \<Rightarrow>
               if k = [] then Inr data
               else (case group m vg of None \<Rightarrow> Inl AttributeError
                     | Some v \<Rightarrow> Inr (AList.update k (VStr (strip v)) data))))"

definition parse_line ::
    "(string \<times> string) list \<Rightarrow> string \<Rightarrow> (string \<times> pyval) list
     \<Rightarrow> error + (string \<times> pyval) list" where
  "parse_line mapping line data =
     (if re_match p_vendor line \<noteq> None then Inr data
      else case re_match p_two_pairs line of
        Some m \<Rightarrow> bindE (store_int mapping m 1 2 data) (store_int mapping m 3 4)
      | None \<Rightarrow>
     (case re_match p_number line of
        Some m \<Rightarrow> store_int mapping m 1 2 data
      | None \<Rightarrow>
     (case re_match p_text line of
        Some m \<Rightarrow> store_text mapping m 1 2 data
      | None \<Rightarrow> Inr data)))"

fun parse_lines ::
    "(string \<times> string) list \<Rightarrow> string list \<Rightarrow> (string \<times> pyval) list
     \<Rightarrow> error + (string \<times> pyval) list" where
  "parse_lines mapping [] data = Inr data"
| "parse_lines mapping (line # rest) data =
     bindE (parse_line mapping line data) (parse_lines mapping rest)"

text \<open>
  \<open>parse_output\<close>: the dictionary \<open>data\<close>, in insertion order (a key stored again
  keeps its place and takes the new value).
\<close>

definition parse_output ::
    "(string \<times> string) list \<Rightarrow> string list \<Rightarrow> error + (string \<times> pyval) list" where
  "parse_output mapping input_lines =
     (if input_lines = [] then Inr [] else parse_lines mapping input_lines [])"

definition ATI6_mapping :: "(string \<times> string) list" where
  "ATI6_mapping =
     [(''Chars sent'', ''chars_tx''),
      (''Chars Received'', ''chars_rx''),
      (''Chars lost'', ''chars_lost''),
      (''Octets sent'', ''octets_tx''),
      (''Octets Received'', ''octets_rx''),
      (''Blocks sent'', ''blocks_tx''),
      (''Blocks Received'', ''blocks_rx''),
      (''Blocks resent'', ''blocks_resent''),
      (''Retrains Requested'', ''retr_req''),
      (''Retrains Granted'', ''retr_granted''),
      (''Line Reversals'', ''line_reversals''),
      (''Blers'', ''blers''),
      (''Link Timeouts'', ''link_timeouts''),
      (''Link Naks'', ''link_naks''),
      (''Data Compression'', ''data_compression''),
      (''Equalization'', ''equalization''),
      (''Fallback'', ''fallback''),
      (''Protocol'', ''protocol''),
      (''Speed'', ''speed''),
      (''Last Call'', ''last_call''),
      (''Disconnect Reason is'', ''disconnect_reason'')]"

definition ATI11_mapping :: "(string \<times> string) list" where
  "ATI11_mapping =
     [(''Modulation'', ''modulation''),
      (''Carrier Freq ( Hz )'', ''carrier_freq''),
      (''Symbol Rate'', ''symbol_rate''),
      (''Trellis Code'', ''trellis_code''),
      (''Nonlinear Encoding'', ''nonlinear_encoding''),
      (''Precoding'', ''precoding''),
      (''Shaping'', ''shaping''),
      (''Preemphasis Index'', ''preemphasis_index''),
      (''Recv/Xmit Level (-dBm)'', ''recv_xmit_level''),
      (''SNR             ( dB )'', ''snr''),
      (''Near Echo Loss  ( dB )'', ''near_echo_loss''),
      (''Far Echo Loss   ( dB )'', ''far_echo_loss''),
      (''Roundtrip Delay (msec)'', ''roundtrip_delay''),
      (''Round Trip Delay (msec)'', ''roundtrip_delay''),
      (''Timing Offset   ( ppm)'', ''timing_offset''),
      (''Carrier Offset  ( ppm)'', ''carrier_offset''),
      (''RX Upshifts'', ''rx_upshifts''),
      (''RX Downshifts'', ''rx_downshifts''),
      (''TX Speedshifts'', ''tx_speedshifts''),
      (''x2 Status'', ''x2_status'')]"

definition ATI6Parser :: "string list \<Rightarrow> error + (string \<times> pyval) list" where
  "ATI6Parser input_lines = parse_output ATI6_mapping input_lines"

definition ATI11Parser :: "string list \<Rightarrow> error + (string \<times> pyval) list" where
  "ATI11Parser input_lines = parse_output ATI11_mapping input_lines"

section \<open>The marker patterns\<close>

definition d2 :: re where
  "d2 = Cat (One Dig) (One Dig)"

definition ts_pat :: re where
  "ts_pat = seq [d2, Lit ''-'', d2, Lit ''-'', d2, Lit '' '', d2, Lit '':'', d2, Lit '':'', d2]"

text \<open>Groups of \<open>r_abort\<close>: 1 is \<open>ts\<close>, 2 the separator, 3 is \<open>reason\<close>.\<close>

definition r_abort :: re where
  "r_abort = seq [Lit ''### aborting '', Grp 1 ts_pat,
                  Grp 2 (Alt (Cat (Lit '','') (One Spc))
                             (seq [One Spc, Lit ''-'', One Spc])),
                  Grp 3 (Star Dot)]"

text \<open>Groups of \<open>r_wc_banner\<close>: 1 \<open>wc_connect_bps\<close>, 2 \<open>wc_reliable\<close>, 3 \<open>wc_ansi_detect\<close>.\<close>

definition r_wc_banner :: re where
  "r_wc_banner = seq [Lit ''Connected at '', Grp 1 (Plus Dig), Lit '' bps'', One Dot,
                      Opt (Grp 2 (seq [Lit ''Reliable connection'', One Dot, Plus Spc])),
                      Opt (Grp 3 (Cat (Lit ''ANSI detected'') (One Dot)))]"

text \<open>Groups of \<open>r_start_qmodem\<close>: 1 \<open>testsize\<close>, 2 \<open>protocol\<close>, 3 \<open>ts\<close>.\<close>

definition r_start_qmodem :: re where
  "r_start_qmodem = seq [Lit ''#### start_qmodem '',
                         Opt (seq [Lit ''testsize:'', Grp 1 (Plus NSpc), One Spc,
                                   Lit ''proto:'', Grp 2 (Plus NSpc), One Spc]),
                         Grp 3 ts_pat]"

definition r_start_dial :: re where
  "r_start_dial = Cat (Lit ''#### start_dial '') (Grp 1 ts_pat)"

definition r_connected :: re where
  "r_connected = Cat (Lit ''#### connected '') (Grp 1 ts_pat)"

definition r_start_download :: re where
  "r_start_download = Cat (Lit ''### start_download '') (Grp 1 ts_pat)"

definition r_end_download :: re where
  "r_end_download = Cat (Lit ''### end_download '') (Grp 1 ts_pat)"

text \<open>Groups of \<open>r_dl_status_cps\<close>: 1 \<open>download_status\<close>, 2 \<open>cps\<close>.\<close>

definition r_dl_status_cps :: re where
  "r_dl_status_cps = seq [Plus NSpc, Plus Spc, Lit ''-'', Plus Spc,
                          Grp 1 (Alt (Lit ''SUCCESSFUL!'') (Cat (Lit ''UNSUCCESSFUL'') (One Dot))),
                          Opt (seq [Plus Spc, Lit ''CPS = '', Grp 2 (Plus NSpc)])]"

definition r_stats_ati6 :: re where
  "r_stats_ati6 = Lit ''### stats_ati6''"

definition r_stats_ati6_end :: re where
  "r_stats_ati6_end = Lit ''### end_stats_ati6''"

definition r_stats_ati11 :: re where
  "r_stats_ati11 = Lit ''### stats_ati11''"

definition r_stats_ati11_end :: re where
  "r_stats_ati11_end = Lit ''### end_stats_ati11''"

definition r_end_call :: re where
  "r_end_call = Cat (Lit ''#### end_call '') (Grp 1 ts_pat)"

definition r_exit_qmodem :: re where
  "r_exit_qmodem = Cat (Lit ''#### exit_qmodem '') (Grp 1 ts_pat)"


section \<open>The ingestion loop of \<open>read_file\<close>\<close>

text \<open>
  The local variables of \<open>read_file\<close> that live across lines, the store \<open>repo\<close>
  and the class-level counters. \<open>cur_record\<close> is the variable \<open>record\<close>.
\<close>

record lstate =
  cur_record :: "CallRecord option"
  in_ati :: bool
  ati_lines :: "string list"
  aborted :: bool
  repo :: "CallRecord list"
  ctrs :: counters

definition lstate0 :: lstate where
  "lstate0 = \<lparr>cur_record = None, in_ati = False, ati_lines = [], aborted = False,
               repo = [], ctrs = counters0\<rparr>"

text \<open>
  An assignment \<open>record.field = value\<close>: on \<open>record = None\<close> it raises
  \<open>AttributeError\<close> (the value on the right has been computed by then).
\<close>

definition set_field :: "(CallRecord \<Rightarrow> CallRecord) \<Rightarrow> lstate \<Rightarrow> error + lstate" where
  "set_field f st =
     (case cur_record st of
        None \<Rightarrow> Inl AttributeError
      | Some r \<Rightarrow> Inr (st\<lparr>cur_record := Some (f r)\<rparr>))"

text \<open>
  The \<open>start_qmodem\<close> branch. \<open>ConnectionType\<close> has the members \<open>MODEM\<close> and
  \<open>DIRECTSERIAL\<close> only, so evaluating \<open>ConnectionType.DIRECT\<close>, which the branch
  does when \<open>args.nullmodem\<close> is set, raises \<open>AttributeError\<close>. The new record has
  been constructed (and counted) by then.
\<close>

definition on_start_qmodem :: "bool \<Rightarrow> caps \<Rightarrow> lstate \<Rightarrow> error + lstate" where
  "on_start_qmodem nullmodem m st =
     bindE (parse_group_ts m 3) (\<lambda>ts_start.
       let saved = (case cur_record st of
                      None \<Rightarrow> repo st
                    | Some r \<Rightarrow> if start_qmodem r \<noteq> None then repo st @ [r] else repo st);
           c = post_init (ctrs st)
       in if nullmodem then Inl AttributeError
          else bindE (parse_group_ts m 3) (\<lambda>ts_again.
                 Inr (st\<lparr>cur_record := Some (new_record\<lparr>connect_type := MODEM,
                                                          start_qmodem := Some ts_again\<rparr>),
                         aborted := False, repo := saved, ctrs := c\<rparr>)))"

definition on_abort :: "caps \<Rightarrow> lstate \<Rightarrow> error + lstate" where
  "on_abort m st =
     bindE (parse_group_ts m 1) (\<lambda>ts.
       bindE (set_field (\<lambda>r. r\<lparr>aborted_time := Some ts, abort_reason := group m 3\<rparr>) st)
         (\<lambda>st'. Inr (st'\<lparr>aborted := True\<rparr>)))"

definition on_start_dial :: "caps \<Rightarrow> lstate \<Rightarrow> error + lstate" where
  "on_start_dial m st =
     bindE (parse_group_ts m 1) (\<lambda>ts. set_field (\<lambda>r. r\<lparr>start_dial := Some ts\<rparr>) st)"

definition on_connected :: "caps \<Rightarrow> lstate \<Rightarrow> error + lstate" where
  "on_connected m st =
     bindE (parse_group_ts m 1) (\<lambda>ts.
       case cur_record st of
         None \<Rightarrow> Inl AttributeError
       | Some r \<Rightarrow>
           (let rc = mark_connected True (r\<lparr>connect_time := Some ts\<rparr>, ctrs st)
            in Inr (st\<lparr>cur_record := Some (fst rc), ctrs := snd rc\<rparr>)))"

text \<open>
  The banner branch: \<open>int(group)\<close> of a group that took no part raises \<open>TypeError\<close>.
  The branch assigns \<open>remote_reliable\<close> and \<open>remote_ansi_detected\<close> the group texts;
  it does not assign \<open>remote_ansi\<close>.
\<close>

definition on_banner :: "caps \<Rightarrow> lstate \<Rightarrow> error + lstate" where
  "on_banner m st =
     bindE (case group m 1 of None \<Rightarrow> Inl TypeError | Some t \<Rightarrow> py_int t) (\<lambda>bps.
       set_field (\<lambda>r. r\<lparr>remote_connect_bps := Some bps,
                         remote_reliable := group m 2,
                         remote_ansi_detected := group m 3\<rparr>) st)"

definition on_start_download :: "caps \<Rightarrow> lstate \<Rightarrow> error + lstate" where
  "on_start_download m st =
     bindE (parse_group_ts m 1) (\<lambda>ts. set_field (\<lambda>r. r\<lparr>start_download := Some ts\<rparr>) st)"

definition on_end_download :: "caps \<Rightarrow> lstate \<Rightarrow> error + lstate" where
  "on_end_download m st =
     bindE (parse_group_ts m 1) (\<lambda>ts. set_field (\<lambda>r. r\<lparr>end_download := Some ts\<rparr>) st)"

text \<open>
  The download-result branch: the record is marked by the status text, then a CPS
  group that is present and not empty is converted with the commas removed.
\<close>

definition on_download_result :: "caps \<Rightarrow> lstate \<Rightarrow> error + lstate" where
  "on_download_result m st =
     (case cur_record st of
        None \<Rightarrow> Inl AttributeError
      | Some r \<Rightarrow>
          (let rc = mark_download_success (group m 1 = Some ''SUCCESSFUL!'') (r, ctrs st);
               st1 = st\<lparr>cur_record := Some (fst rc), ctrs := snd rc\<rparr>
           in case group m 2 of
                None \<Rightarrow> Inr st1
              | Some cps \<Rightarrow>
                  if cps = [] then Inr st1
                  else bindE (py_int (filter (\<lambda>c. c \<noteq> CHR '','') cps))
                         (\<lambda>n. set_field (\<lambda>r. r\<lparr>download_cps := Some n\<rparr>) st1)))"

definition on_end_call :: "caps \<Rightarrow> lstate \<Rightarrow> error + lstate" where
  "on_end_call m st =
     bindE (parse_group_ts m 1) (\<lambda>ts. set_field (\<lambda>r. r\<lparr>end_call := Some ts\<rparr>) st)"

definition on_end_stats_ati6 :: "lstate \<Rightarrow> error + lstate" where
  "on_end_stats_ati6 st =
     bindE (ATI6Parser (ati_lines st)) (\<lambda>d.
       bindE (set_field (\<lambda>r. r\<lparr>ati6 := Some d\<rparr>) (st\<lparr>in_ati := False\<rparr>))
         (\<lambda>st'. Inr (st'\<lparr>ati_lines := []\<rparr>)))"

definition on_end_stats_ati11 :: "lstate \<Rightarrow> error + lstate" where
  "on_end_stats_ati11 st =
     bindE (ATI11Parser (ati_lines st)) (\<lambda>d.
       bindE (set_field (\<lambda>r. r\<lparr>ati11 := Some d\<rparr>) (st\<lparr>in_ati := False\<rparr>))
         (\<lambda>st'. Inr (st'\<lparr>ati_lines := []\<rparr>)))"

definition on_exit_qmodem :: "caps \<Rightarrow> lstate \<Rightarrow> error + lstate" where
  "on_exit_qmodem m st =
     bindE (parse_group_ts m 1) (\<lambda>ts.
       case cur_record st of
         None \<Rightarrow> Inl AttributeError
       | Some r \<Rightarrow> Inr (st\<lparr>cur_record := None, repo := repo st @ [r\<lparr>exit_qmodem := Some ts\<rparr>]\<rparr>))"

text \<open>
  The part of the loop body after the \<open>stats_ati6\<close> test: the line is added to an open
  block, then the block-end, second block-begin (which does not \<open>continue\<close>) and exit
  tests follow.
\<close>

definition step_tail :: "string \<Rightarrow> lstate \<Rightarrow> error + lstate" where
  "step_tail line st0 =
     (let st = (if in_ati st0 then st0\<lparr>ati_lines := ati_lines st0 @ [strip line]\<rparr> else st0)
      in if re_match r_stats_ati6_end line \<noteq> None then on_end_stats_ati6 st
         else
           let st2 = (if re_match r_stats_ati11 line \<noteq> None
                      then st\<lparr>in_ati := True, ati_lines := []\<rparr> else st)
           in if re_match r_stats_ati11_end line \<noteq> None then on_end_stats_ati11 st2
              else case re_match r_exit_qmodem line of
                     Some m \<Rightarrow> on_exit_qmodem m st2
                   | None \<Rightarrow> Inr st2)"

text \<open>One pass of the loop body over one line: the tests in the order of the source.\<close>

definition step :: "bool \<Rightarrow> string \<Rightarrow> lstate \<Rightarrow> error + lstate" where
  "step nullmodem line st =
     (case re_search r_start_qmodem line of Some m \<Rightarrow> on_start_qmodem nullmodem m st
      | None \<Rightarrow>
     (case re_search r_abort line of Some m \<Rightarrow> on_abort m st
      | None \<Rightarrow>
     (case re_search r_start_dial line of Some m \<Rightarrow> on_start_dial m st
      | None \<Rightarrow>
     (case re_search r_connected line of Some m \<Rightarrow> on_connected m st
      | None \<Rightarrow>
     (case re_search r_wc_banner line of Some m \<Rightarrow> on_banner m st
      | None \<Rightarrow>
     (case re_search r_start_download line of Some m \<Rightarrow> on_start_download m st
      | None \<Rightarrow>
     (case re_search r_end_download line of Some m \<Rightarrow> on_end_download m st
      | None \<Rightarrow>
     (case re_search r_dl_status_cps line of Some m \<Rightarrow> on_download_result m st
      | None \<Rightarrow>
     (case re_match r_end_call line of Some m \<Rightarrow> on_end_call m st
      | None \<Rightarrow>
     (if re_match r_stats_ati6 line \<noteq> None then Inr (st\<lparr>in_ati := True, ati_lines := []\<rparr>)
      else step_tail line st))))))))))"

fun read_loop :: "bool \<Rightarrow> string list \<Rightarrow> lstate \<Rightarrow> error + lstate" where
  "read_loop nullmodem [] st = Inr st"
| "read_loop nullmodem (line # rest) st =
     bindE (step nullmodem line st) (read_loop nullmodem rest)"

text \<open>After the loop: a record still open is saved.\<close>

definition save_last :: "lstate \<Rightarrow> lstate" where
  "save_last st =
     (case cur_record st of
        None \<Rightarrow> st
      | Some r \<Rightarrow> st\<lparr>repo := repo st @ [r]\<rparr>)"

text \<open>
  \<open>read_file\<close> on the lines of the opened file, in a fresh process (all counters 0):
  the store that is returned, with the counters as the run leaves them.
\<close>

definition read_file :: "bool \<Rightarrow> string list \<Rightarrow> error + (CallRecord list \<times> counters)" where
  "read_file nullmodem lines =
     bindE (read_loop nullmodem lines lstate0)
       (\<lambda>st. Inr (repo (save_last st), ctrs (save_last st)))"

text \<open>A line of the log ends with a line feed.\<close>

definition ln :: "string \<Rightarrow> string" where
  "ln s = s @ [CHR 0x0A]"


section \<open>Reading a log line by line: which branch a line takes\<close>

text \<open>
  A line takes the \<open>start_qmodem\<close> branch when the first pattern is found in it; it
  takes the \<open>connected\<close> branch when the three patterns tested before are not found
  and \<open>r_connected\<close> is; it takes the download-result branch when the seven patterns
  tested before are not found and \<open>r_dl_status_cps\<close> is.
\<close>

definition is_start_qmodem_line :: "string \<Rightarrow> bool" where
  "is_start_qmodem_line l = (re_search r_start_qmodem l \<noteq> None)"

definition is_connected_line :: "string \<Rightarrow> bool" where
  "is_connected_line l =
     (re_search r_start_qmodem l = None \<and> re_search r_abort l = None
      \<and> re_search r_start_dial l = None \<and> re_search r_connected l \<noteq> None)"

definition download_result_of :: "string \<Rightarrow> caps option" where
  "download_result_of l =
     (if re_search r_start_qmodem l = None \<and> re_search r_abort l = None
         \<and> re_search r_start_dial l = None \<and> re_search r_connected l = None
         \<and> re_search r_wc_banner l = None \<and> re_search r_start_download l = None
         \<and> re_search r_end_download l = None
      then re_search r_dl_status_cps l else None)"

text \<open>
  No call of the log has a second \<open>connected\<close> marker line: the flag tells whether
  the call being read has had one.
\<close>

fun single_connect :: "bool \<Rightarrow> string list \<Rightarrow> bool" where
  "single_connect seen [] = True"
| "single_connect seen (l # ls) =
     (if is_start_qmodem_line l then single_connect False ls
      else if is_connected_line l then \<not> seen \<and> single_connect True ls
      else single_connect seen ls)"

text \<open>
  Two versions of a record belong to the same call: they agree on the start and exit
  timestamps and on the connection kind.
\<close>

definition same_call :: "CallRecord \<Rightarrow> CallRecord \<Rightarrow> bool" where
  "same_call r r' = (start_qmodem r' = start_qmodem r \<and> exit_qmodem r' = exit_qmodem r
                     \<and> connect_type r' = connect_type r)"

text \<open>All records of a state: the stored ones and the open one.\<close>

definition all_records :: "lstate \<Rightarrow> CallRecord set" where
  "all_records st = set (repo st) \<union> set_option (cur_record st)"

text \<open>
  The four things a line can do to the state, as relations between the state before and
  after: start a call, mark it connected, end it with the exit marker, or none of these.
\<close>

text \<open>
  A quiet step leaves the store and the two connection counters alone; an open record
  stays open and belongs to the same call.
\<close>

definition quiet_step :: "lstate \<Rightarrow> lstate \<Rightarrow> bool" where
  "quiet_step st st' =
     (repo st' = repo st
      \<and> count_start_dial (ctrs st') = count_start_dial (ctrs st)
      \<and> count_connected (ctrs st') = count_connected (ctrs st)
      \<and> rel_option same_call (cur_record st) (cur_record st'))"

definition exit_step :: "lstate \<Rightarrow> lstate \<Rightarrow> bool" where
  "exit_step st st' =
     (\<exists>r d. cur_record st = Some r \<and> cur_record st' = None
            \<and> repo st' = repo st @ [r\<lparr>exit_qmodem := Some d\<rparr>]
            \<and> ctrs st' = ctrs st)"

definition start_step :: "lstate \<Rightarrow> lstate \<Rightarrow> datetime \<Rightarrow> bool" where
  "start_step st st' d =
     (cur_record st' = Some (new_record\<lparr>connect_type := MODEM, start_qmodem := Some d\<rparr>)
      \<and> repo st' = repo st @ (case cur_record st of
                                 None \<Rightarrow> []
                               | Some r \<Rightarrow> if start_qmodem r \<noteq> None then [r] else [])
      \<and> ctrs st' = post_init (ctrs st))"

definition connected_step :: "lstate \<Rightarrow> lstate \<Rightarrow> bool" where
  "connected_step st st' =
     (\<exists>r d. cur_record st = Some r
            \<and> cur_record st' = Some (r\<lparr>connect_time := Some d, connected := Some True\<rparr>)
            \<and> repo st' = repo st
            \<and> ctrs st' = (ctrs st)\<lparr>count_connected := count_connected (ctrs st) + 1\<rparr>)"

text \<open>The decimal digit characters, by index (used to write a timestamp of any value).\<close>

definition dig :: "nat \<Rightarrow> char" where
  "dig n = ''0123456789'' ! (n mod 10)"

text \<open>
  A marker line as the dialling script writes it: the label, a blank, the timestamp
  and the line feed.
\<close>

definition marker_line :: "string \<Rightarrow> string \<Rightarrow> string" where
  "marker_line label ts = label @ '' '' @ ts @ [CHR 0x0A]"

text \<open>
  The log of one complete call: the seven marker lines with their timestamps, and the
  download-result line after \<open>end_download\<close>.
\<close>

definition call_log ::
    "string \<Rightarrow> string \<Rightarrow> string \<Rightarrow> string \<Rightarrow> string \<Rightarrow> string \<Rightarrow> string \<Rightarrow> string
     \<Rightarrow> string list" where
  "call_log t1 t2 t3 t4 t5 res t6 t7 =
     [marker_line ''#### start_qmodem'' t1,
      marker_line ''#### start_dial'' t2,
      marker_line ''#### connected'' t3,
      marker_line ''### start_download'' t4,
      marker_line ''### end_download'' t5,
      res,
      marker_line ''#### end_call'' t6,
      marker_line ''#### exit_qmodem'' t7]"

text \<open>
  A SUCCESSFUL download-result line: it takes the download-result branch with the
  status text \<open>SUCCESSFUL!\<close>, and its CPS text, if there is one, converts to an integer.
\<close>

definition successful_result :: "string \<Rightarrow> bool" where
  "successful_result l =
     (case download_result_of l of
        None \<Rightarrow> False
      | Some m \<Rightarrow>
          group m 1 = Some ''SUCCESSFUL!''
          \<and> (case group m 2 of
                None \<Rightarrow> True
              | Some cps \<Rightarrow>
                  cps = []
                  \<or> (case py_int (filter (\<lambda>c. c \<noteq> CHR '','') cps) of
                        Inl e \<Rightarrow> False | Inr n \<Rightarrow> True)))"

section \<open>The field parser, in the words of the specification\<close>

text \<open>
  The specification describes the result of the diagnostic-block parser by the texts
  that the line patterns match: a value is an integer if the matched value text is
  all digits, and the trimmed text otherwise; a label that the mapping does not have
  gives no entry. \<open>spec_parse_output\<close> is written from these words, to be compared
  with \<open>parse_output\<close>, which is written from the code.
\<close>

definition all_digits :: "string \<Rightarrow> bool" where
  "all_digits v = (v \<noteq> [] \<and> list_all is_digit v)"

definition spec_value :: "string \<Rightarrow> pyval" where
  "spec_value v = (if all_digits v then VInt (digits_val v) else VStr (strip v))"

definition matched_pair :: "caps \<Rightarrow> nat \<Rightarrow> nat \<Rightarrow> (string \<times> string) list" where
  "matched_pair m kg vg =
     (case group m kg of
        None \<Rightarrow> []
      | Some label \<Rightarrow> (case group m vg of None \<Rightarrow> [] | Some v \<Rightarrow> [(label, v)]))"

text \<open>The label and value texts of a line, by the first policy that applies.\<close>

definition spec_pairs :: "string \<Rightarrow> (string \<times> string) list" where
  "spec_pairs line =
     (if re_match p_vendor line \<noteq> None then []
      else case re_match p_two_pairs line of
        Some m \<Rightarrow> matched_pair m 1 2 @ matched_pair m 3 4
      | None \<Rightarrow>
     (case re_match p_number line of
        Some m \<Rightarrow> matched_pair m 1 2
      | None \<Rightarrow>
     (case re_match p_text line of
        Some m \<Rightarrow> matched_pair m 1 2
      | None \<Rightarrow> [])))"

definition spec_store ::
    "(string \<times> string) list \<Rightarrow> (string \<times> pyval) list \<Rightarrow> string \<times> string
     \<Rightarrow> (string \<times> pyval) list" where
  "spec_store mapping data lv =
     (case map_of mapping (strip (fst lv)) of
        None \<Rightarrow> data
      | Some k \<Rightarrow> AList.update k (spec_value (snd lv)) data)"

definition spec_parse_output ::
    "(string \<times> string) list \<Rightarrow> string list \<Rightarrow> (string \<times> pyval) list" where
  "spec_parse_output mapping input_lines =
     foldl (spec_store mapping) [] (concat (map spec_pairs input_lines))"

section \<open>The error monad and the loop\<close>

lemma bindE_Inl [simp]: "bindE (Inl e) f = Inl e"
  by (simp add: bindE_def)

lemma bindE_Inr [simp]: "bindE (Inr x) f = f x"
  by (simp add: bindE_def)

lemma bindE_eq_Inr: "bindE m f = Inr y \<longleftrightarrow> (\<exists>x. m = Inr x \<and> f x = Inr y)"
  by (cases m) simp_all

lemma set_field_eq_Inr:
  "set_field f st = Inr st'
   \<longleftrightarrow> (\<exists>r. cur_record st = Some r \<and> st' = st\<lparr>cur_record := Some (f r)\<rparr>)"
  by (auto simp: set_field_def split: option.splits)

lemma read_loop_append:
  "read_loop nm (xs @ ys) st = bindE (read_loop nm xs st) (read_loop nm ys)"
proof (induction xs arbitrary: st)
  case Nil
  show ?case by simp
next
  case (Cons x xs)
  show ?case
  proof (cases "step nm x st")
    case (Inl e)
    then show ?thesis by simp
  next
    case (Inr st1)
    then show ?thesis using Cons.IH [of st1] by simp
  qed
qed

subsection \<open>What one line can do to the state\<close>

lemma quiet_step_refl: "quiet_step st st"
  by (cases "cur_record st") (simp_all add: quiet_step_def same_call_def)

lemma quiet_step_aux:
  assumes "quiet_step st st1" and "cur_record st2 = cur_record st1"
    and "repo st2 = repo st1" and "ctrs st2 = ctrs st1"
  shows "quiet_step st st2"
  using assms by (simp add: quiet_step_def)

lemma on_abort_quiet: "on_abort m st = Inr st' \<Longrightarrow> quiet_step st st'"
  by (auto simp: on_abort_def bindE_eq_Inr set_field_eq_Inr quiet_step_def same_call_def)

lemma on_banner_quiet: "on_banner m st = Inr st' \<Longrightarrow> quiet_step st st'"
  by (auto simp: on_banner_def bindE_eq_Inr set_field_eq_Inr quiet_step_def same_call_def)

lemma on_download_result_quiet: "on_download_result m st = Inr st' \<Longrightarrow> quiet_step st st'"
  by (auto simp: on_download_result_def bindE_eq_Inr set_field_eq_Inr quiet_step_def
        same_call_def mark_download_success_def Let_def
      split: option.splits if_splits)

lemma rel_option_same_call_refl [simp]: "rel_option same_call x x"
  by (cases x) (simp_all add: same_call_def)

lemma on_end_stats_ati6_quiet:
  assumes "on_end_stats_ati6 st1 = Inr st'" and "cur_record st1 = cur_record st"
    and "repo st1 = repo st" and "ctrs st1 = ctrs st"
  shows "quiet_step st st'"
  using assms
  by (auto simp: on_end_stats_ati6_def bindE_eq_Inr set_field_eq_Inr quiet_step_def
        same_call_def)

lemma on_end_stats_ati11_quiet:
  assumes "on_end_stats_ati11 st1 = Inr st'" and "cur_record st1 = cur_record st"
    and "repo st1 = repo st" and "ctrs st1 = ctrs st"
  shows "quiet_step st st'"
  using assms
  by (auto simp: on_end_stats_ati11_def bindE_eq_Inr set_field_eq_Inr quiet_step_def
        same_call_def)

lemma on_exit_qmodem_exit:
  assumes "on_exit_qmodem m st1 = Inr st'" and "cur_record st1 = cur_record st"
    and "repo st1 = repo st" and "ctrs st1 = ctrs st"
  shows "exit_step st st'"
proof -
  from assms(1) obtain d r where r: "cur_record st1 = Some r"
    and st': "st' = st1\<lparr>cur_record := None, repo := repo st1 @ [r\<lparr>exit_qmodem := Some d\<rparr>]\<rparr>"
    by (auto simp: on_exit_qmodem_def bindE_eq_Inr split: option.splits)
  show ?thesis
    unfolding exit_step_def
    by (rule exI [of _ r], rule exI [of _ d]) (use r st' assms(2-4) in simp)
qed

lemma step_tail_cases:
  assumes "step_tail line st = Inr st'"
  shows "quiet_step st st' \<or> (re_match r_exit_qmodem line \<noteq> None \<and> exit_step st st')"
proof -
  define st1 where
    "st1 = (if in_ati st then st\<lparr>ati_lines := ati_lines st @ [strip line]\<rparr> else st)"
  define st2 where
    "st2 = (if re_match r_stats_ati11 line \<noteq> None
            then st1\<lparr>in_ati := True, ati_lines := []\<rparr> else st1)"
  have s1: "cur_record st1 = cur_record st" "repo st1 = repo st" "ctrs st1 = ctrs st"
    by (simp_all add: st1_def)
  have s2: "cur_record st2 = cur_record st" "repo st2 = repo st" "ctrs st2 = ctrs st"
    by (simp_all add: st2_def s1)
  have unfolded: "step_tail line st =
      (if re_match r_stats_ati6_end line \<noteq> None then on_end_stats_ati6 st1
       else if re_match r_stats_ati11_end line \<noteq> None then on_end_stats_ati11 st2
       else case re_match r_exit_qmodem line of
              Some m \<Rightarrow> on_exit_qmodem m st2 | None \<Rightarrow> Inr st2)"
    unfolding st2_def st1_def step_tail_def Let_def by simp
  show ?thesis
  proof (cases "re_match r_stats_ati6_end line \<noteq> None")
    case True
    then show ?thesis
      using assms unfolded on_end_stats_ati6_quiet [OF _ s1] by simp
  next
    case no6: False
    show ?thesis
    proof (cases "re_match r_stats_ati11_end line \<noteq> None")
      case True
      then show ?thesis
        using assms unfolded no6 on_end_stats_ati11_quiet [OF _ s2] by simp
    next
      case no11: False
      show ?thesis
      proof (cases "re_match r_exit_qmodem line")
        case None
        then have "st' = st2" using assms unfolded no6 no11 by simp
        then show ?thesis
          using quiet_step_aux [OF quiet_step_refl s2] by simp
      next
        case (Some m)
        then have "on_exit_qmodem m st2 = Inr st'" using assms unfolded no6 no11 by simp
        then show ?thesis
          using on_exit_qmodem_exit [OF _ s2] Some by simp
      qed
    qed
  qed
qed

lemma on_start_qmodem_start:
  assumes "on_start_qmodem nm m st = Inr st'"
  shows "\<not> nm \<and> (\<exists>d. parse_group_ts m 3 = Inr d \<and> start_step st st' d)"
  using assms
  by (auto simp: on_start_qmodem_def bindE_eq_Inr start_step_def Let_def
      split: option.splits if_splits)

lemma on_connected_connected:
  assumes "on_connected m st = Inr st'"
  shows "connected_step st st'"
proof -
  from assms obtain d r where r: "cur_record st = Some r"
    and st': "st' = st\<lparr>cur_record := Some (r\<lparr>connect_time := Some d, connected := Some True\<rparr>),
                       ctrs := (ctrs st)\<lparr>count_connected := count_connected (ctrs st) + 1\<rparr>\<rparr>"
    by (auto simp: on_connected_def bindE_eq_Inr mark_connected_def Let_def
        split: option.splits)
  show ?thesis
    unfolding connected_step_def
    by (rule exI [of _ r], rule exI [of _ d]) (simp add: r st')
qed

lemma step_cases:
  assumes "step nm line st = Inr st'"
  shows "(\<exists>m d. re_search r_start_qmodem line = Some m \<and> \<not> nm
                \<and> parse_group_ts m 3 = Inr d \<and> start_step st st' d)
         \<or> (\<not> is_start_qmodem_line line \<and> is_connected_line line \<and> connected_step st st')
         \<or> (\<not> is_start_qmodem_line line \<and> \<not> is_connected_line line
            \<and> re_match r_exit_qmodem line \<noteq> None \<and> exit_step st st')
         \<or> (\<not> is_start_qmodem_line line \<and> \<not> is_connected_line line \<and> quiet_step st st')"
proof (cases "re_search r_start_qmodem line")
  case (Some m)
  then have "on_start_qmodem nm m st = Inr st'" using assms by (simp add: step_def)
  then show ?thesis using on_start_qmodem_start Some by blast
next
  case n1: None
  then have ns: "\<not> is_start_qmodem_line line" by (simp add: is_start_qmodem_line_def)
  show ?thesis
  proof (cases "re_search r_abort line")
    case (Some m)
    then have "on_abort m st = Inr st'" using assms n1 by (simp add: step_def)
    then show ?thesis using on_abort_quiet ns Some by (auto simp: is_connected_line_def)
  next
    case n2: None
    show ?thesis
    proof (cases "re_search r_start_dial line")
      case (Some m)
      then have "on_start_dial m st = Inr st'" using assms n1 n2 by (simp add: step_def)
      then have "quiet_step st st'"
        by (auto simp: on_start_dial_def bindE_eq_Inr set_field_eq_Inr quiet_step_def
              same_call_def)
      then show ?thesis using ns Some by (auto simp: is_connected_line_def)
    next
      case n3: None
      show ?thesis
      proof (cases "re_search r_connected line")
        case (Some m)
        then have "on_connected m st = Inr st'" using assms n1 n2 n3 by (simp add: step_def)
        then show ?thesis
          using on_connected_connected ns Some n1 n2 n3 by (auto simp: is_connected_line_def)
      next
        case n4: None
        then have nc: "\<not> is_connected_line line" by (simp add: is_connected_line_def)
        have rest: "step nm line st =
          (case re_search r_wc_banner line of Some m \<Rightarrow> on_banner m st
           | None \<Rightarrow>
          (case re_search r_start_download line of Some m \<Rightarrow> on_start_download m st
           | None \<Rightarrow>
          (case re_search r_end_download line of Some m \<Rightarrow> on_end_download m st
           | None \<Rightarrow>
          (case re_search r_dl_status_cps line of Some m \<Rightarrow> on_download_result m st
           | None \<Rightarrow>
          (case re_match r_end_call line of Some m \<Rightarrow> on_end_call m st
           | None \<Rightarrow>
          (if re_match r_stats_ati6 line \<noteq> None
           then Inr (st\<lparr>in_ati := True, ati_lines := []\<rparr>)
           else step_tail line st))))))"
          using n1 n2 n3 n4 by (simp add: step_def)
        have q_sd: "\<And>m. on_start_download m st = Inr st' \<Longrightarrow> quiet_step st st'"
          by (auto simp: on_start_download_def bindE_eq_Inr set_field_eq_Inr quiet_step_def
                same_call_def)
        have q_ed: "\<And>m. on_end_download m st = Inr st' \<Longrightarrow> quiet_step st st'"
          by (auto simp: on_end_download_def bindE_eq_Inr set_field_eq_Inr quiet_step_def
                same_call_def)
        have q_ec: "\<And>m. on_end_call m st = Inr st' \<Longrightarrow> quiet_step st st'"
          by (auto simp: on_end_call_def bindE_eq_Inr set_field_eq_Inr quiet_step_def
                same_call_def)
        have q_b6: "quiet_step st (st\<lparr>in_ati := True, ati_lines := []\<rparr>)"
          by (rule quiet_step_aux [OF quiet_step_refl]) simp_all
        have "quiet_step st st' \<or> (re_match r_exit_qmodem line \<noteq> None \<and> exit_step st st')"
          using assms rest on_banner_quiet on_download_result_quiet q_sd q_ed q_ec q_b6
            step_tail_cases
          by (auto split: option.splits if_splits)
        then show ?thesis using ns nc by blast
      qed
    qed
  qed
qed

subsection \<open>Every record of a run is a modem record\<close>


lemma step_modem:
  assumes "step nm line st = Inr st'" and "\<forall>r \<in> all_records st. connect_type r = MODEM"
  shows "\<forall>r \<in> all_records st'. connect_type r = MODEM"
  using step_cases [OF assms(1)] assms(2)
  by (auto simp: all_records_def start_step_def connected_step_def exit_step_def
        quiet_step_def same_call_def new_record_def option.rel_sel
      split: option.splits if_splits)

lemma read_loop_modem:
  assumes "read_loop nm lines st = Inr st'" and "\<forall>r \<in> all_records st. connect_type r = MODEM"
  shows "\<forall>r \<in> all_records st'. connect_type r = MODEM"
  using assms
proof (induction lines arbitrary: st)
  case Nil
  then show ?case by simp
next
  case (Cons l ls)
  from Cons.prems(1) obtain st1 where s: "step nm l st = Inr st1"
    and r: "read_loop nm ls st1 = Inr st'"
    by (auto simp: bindE_eq_Inr)
  show ?case
    using Cons.IH [OF r step_modem [OF s Cons.prems(2)]] .
qed

lemma read_file_modem:
  assumes "read_file nm lines = Inr (store, c)" and "r \<in> set store"
  shows "connect_type r = MODEM"
proof -
  from assms(1) obtain st where l: "read_loop nm lines lstate0 = Inr st"
    and s: "store = repo (save_last st)"
    by (auto simp: read_file_def bindE_eq_Inr)
  have "\<forall>r \<in> all_records lstate0. connect_type r = MODEM"
    by (simp add: all_records_def lstate0_def)
  from read_loop_modem [OF l this] have "\<forall>r \<in> all_records st. connect_type r = MODEM" .
  then show ?thesis
    using assms(2) s by (auto simp: all_records_def save_last_def split: option.splits)
qed

subsection \<open>Counting\<close>

lemma step_counts:
  assumes "step nm l st = Inr st'"
  shows "count_start_dial (ctrs st')
           = count_start_dial (ctrs st) + (if is_start_qmodem_line l then 1 else 0)
         \<and> count_connected (ctrs st')
           = count_connected (ctrs st) + (if is_connected_line l then 1 else 0)"
  using step_cases [OF assms]
  by (auto simp: start_step_def connected_step_def exit_step_def quiet_step_def
        post_init_def is_start_qmodem_line_def is_connected_line_def)

lemma read_loop_counts:
  assumes "read_loop nm lines st = Inr st'"
  shows "count_start_dial (ctrs st')
           = count_start_dial (ctrs st) + length (filter is_start_qmodem_line lines)
         \<and> count_connected (ctrs st')
           = count_connected (ctrs st) + length (filter is_connected_line lines)"
  using assms
proof (induction lines arbitrary: st)
  case Nil
  then show ?case by simp
next
  case (Cons l ls)
  from Cons.prems obtain st1 where s: "step nm l st = Inr st1"
    and r: "read_loop nm ls st1 = Inr st'"
    by (auto simp: bindE_eq_Inr)
  show ?case
    using Cons.IH [OF r] step_counts [OF s] by simp
qed

lemma read_loop_single_connect:
  assumes "read_loop nm lines st = Inr st'" and "single_connect seen lines"
    and "count_connected (ctrs st) + (if cur_record st \<noteq> None \<and> \<not> seen then 1 else 0)
           \<le> count_start_dial (ctrs st)"
  shows "count_connected (ctrs st') \<le> count_start_dial (ctrs st')"
  using assms
proof (induction lines arbitrary: st seen)
  case Nil
  then show ?case by (simp split: if_splits)
next
  case (Cons l ls)
  from Cons.prems(1) obtain st1 where s: "step nm l st = Inr st1"
    and r: "read_loop nm ls st1 = Inr st'"
    by (auto simp: bindE_eq_Inr)
  define seen1 where
    "seen1 = (if is_start_qmodem_line l then False
              else if is_connected_line l then True else seen)"
  have sc: "single_connect seen1 ls"
    using Cons.prems(2) by (auto simp: seen1_def split: if_splits)
  have ok: "is_connected_line l \<Longrightarrow> \<not> is_start_qmodem_line l \<Longrightarrow> \<not> seen"
    using Cons.prems(2) by (auto split: if_splits)
  have inv: "count_connected (ctrs st1) + (if cur_record st1 \<noteq> None \<and> \<not> seen1 then 1 else 0)
               \<le> count_start_dial (ctrs st1)"
    using step_cases [OF s] Cons.prems(3) ok
    by (auto simp: start_step_def connected_step_def exit_step_def quiet_step_def
          post_init_def is_start_qmodem_line_def seen1_def option.rel_sel
        split: if_splits)
  show ?case
    using Cons.IH [OF r sc inv] .
qed

subsection \<open>A call left open at the end of the input\<close>


subsection \<open>Marker lines with a well-shaped timestamp\<close>

lemma dig_in_digits: "dig n \<in> set ''0123456789''"
  unfolding dig_def by (rule nth_mem) simp

lemma is_digit_dig [simp]: "is_digit (dig n)"
  using dig_in_digits [of n] by (simp add: is_digit_def)

lemma is_space_dig [simp]: "is_space (dig n) = False"
  using dig_in_digits [of n] by (auto simp: is_space_def)

text \<open>A digit differs from every character of the literal parts of the marker patterns.\<close>

lemma dig_neq_literal [simp]:
  shows "(CHR '' '' = dig n) = False"
    "(CHR ''!'' = dig n) = False"
    "(CHR ''#'' = dig n) = False"
    "(CHR '','' = dig n) = False"
    "(CHR ''-'' = dig n) = False"
    "(CHR '':'' = dig n) = False"
    "(CHR ''='' = dig n) = False"
    "(CHR ''A'' = dig n) = False"
    "(CHR ''C'' = dig n) = False"
    "(CHR ''E'' = dig n) = False"
    "(CHR ''F'' = dig n) = False"
    "(CHR ''I'' = dig n) = False"
    "(CHR ''L'' = dig n) = False"
    "(CHR ''N'' = dig n) = False"
    "(CHR ''P'' = dig n) = False"
    "(CHR ''R'' = dig n) = False"
    "(CHR ''S'' = dig n) = False"
    "(CHR ''U'' = dig n) = False"
    "(CHR ''_'' = dig n) = False"
    "(CHR ''a'' = dig n) = False"
    "(CHR ''b'' = dig n) = False"
    "(CHR ''c'' = dig n) = False"
    "(CHR ''d'' = dig n) = False"
    "(CHR ''e'' = dig n) = False"
    "(CHR ''g'' = dig n) = False"
    "(CHR ''i'' = dig n) = False"
    "(CHR ''l'' = dig n) = False"
    "(CHR ''m'' = dig n) = False"
    "(CHR ''n'' = dig n) = False"
    "(CHR ''o'' = dig n) = False"
    "(CHR ''p'' = dig n) = False"
    "(CHR ''q'' = dig n) = False"
    "(CHR ''r'' = dig n) = False"
    "(CHR ''s'' = dig n) = False"
    "(CHR ''t'' = dig n) = False"
    "(CHR ''w'' = dig n) = False"
    "(CHR ''x'' = dig n) = False"
    "(CHR ''z'' = dig n) = False"
    "(dig n = CHR 0x0A) = False"
  using dig_in_digits [of n] by auto

lemma is_digit_obtain:
  assumes "is_digit a"
  obtains n where "a = dig n"
proof -
  from assms have "a \<in> set ''0123456789''" by (simp add: is_digit_def)
  then obtain i where "i < length ''0123456789''" and "a = ''0123456789'' ! i"
    by (metis in_set_conv_nth)
  then have "a = dig i" by (simp add: dig_def)
  then show ?thesis by (rule that)
qed

lemma is_space_Char [simp]:
  "is_space (Char b0 b1 b2 b3 b4 b5 b6 b7)
     = (Char b0 b1 b2 b3 b4 b5 b6 b7
          \<in> set [CHR 0x09, CHR 0x0A, CHR 0x0B, CHR 0x0C, CHR 0x0D,
                  CHR 0x1C, CHR 0x1D, CHR 0x1E, CHR 0x1F, CHR 0x20, CHR 0x85, CHR 0xA0])"
  by (simp only: is_space_def)

lemma is_digit_Char [simp]:
  "is_digit (Char b0 b1 b2 b3 b4 b5 b6 b7)
     = (Char b0 b1 b2 b3 b4 b5 b6 b7 \<in> set ''0123456789'')"
  by (simp only: is_digit_def)

lemma ts_shape_expand:
  assumes "ts_shape t"
  obtains n0 n1 n2 n3 n4 n5 n6 n7 n8 n9 n10 n11 where
    "t = [dig n0, dig n1, CHR ''-'', dig n2, dig n3, CHR ''-'', dig n4, dig n5, CHR '' '',
          dig n6, dig n7, CHR '':'', dig n8, dig n9, CHR '':'', dig n10, dig n11]"
proof -
  have "length t = Suc (Suc (Suc (Suc (Suc (Suc (Suc (Suc (Suc (Suc (Suc (Suc (Suc (Suc
          (Suc (Suc (Suc 0))))))))))))))))"
    using assms by (simp add: ts_shape_def)
  then obtain x0 x1 x2 x3 x4 x5 x6 x7 x8 x9 x10 x11 x12 x13 x14 x15 x16 where
    t: "t = [x0, x1, x2, x3, x4, x5, x6, x7, x8, x9, x10, x11, x12, x13, x14, x15, x16]"
    by (auto simp: length_Suc_conv)
  have sep: "x2 = CHR ''-''" "x5 = CHR ''-''" "x8 = CHR '' ''" "x11 = CHR '':''"
    "x14 = CHR '':''"
    and d: "is_digit x0" "is_digit x1" "is_digit x3" "is_digit x4" "is_digit x6" "is_digit x7"
    "is_digit x9" "is_digit x10" "is_digit x12" "is_digit x13" "is_digit x15" "is_digit x16"
    using assms unfolding t ts_shape_def by simp_all
  from d obtain n0 n1 n2 n3 n4 n5 n6 n7 n8 n9 n10 n11 where
    "x0 = dig n0" "x1 = dig n1" "x3 = dig n2" "x4 = dig n3" "x6 = dig n4" "x7 = dig n5"
    "x9 = dig n6" "x10 = dig n7" "x12 = dig n8" "x13 = dig n9" "x15 = dig n10"
    "x16 = dig n11"
    by (metis is_digit_obtain)
  then show ?thesis
    using that [of n0 n1 n2 n3 n4 n5 n6 n7 n8 n9 n10 n11] t sep by simp
qed

lemmas re_eval = re_match_def ln_def d2_def ts_pat_def r_abort_def r_wc_banner_def
  r_start_qmodem_def r_start_dial_def r_connected_def r_start_download_def
  r_end_download_def r_dl_status_cps_def r_stats_ati6_def r_stats_ati6_end_def
  r_stats_ati11_def r_stats_ati11_end_def r_end_call_def r_exit_qmodem_def

lemma start_qmodem_line:
  shows "re_search r_start_qmodem (marker_line ''#### start_qmodem''
         [dig n0, dig n1, CHR ''-'', dig n2, dig n3, CHR ''-'', dig n4, dig n5, CHR '' '',
          dig n6, dig n7, CHR '':'', dig n8, dig n9, CHR '':'', dig n10, dig n11])
       = Some [(3, [dig n0, dig n1, CHR ''-'', dig n2, dig n3, CHR ''-'', dig n4, dig n5, CHR '' '',
          dig n6, dig n7, CHR '':'', dig n8, dig n9, CHR '':'', dig n10, dig n11])]"
  by (simp_all add: marker_line_def re_eval)

lemma step_start_qmodem:
  assumes "ts_shape t"
  shows "step nm (marker_line ''#### start_qmodem'' t) st
           = on_start_qmodem nm [(3, t)] st"
proof -
  from assms obtain n0 n1 n2 n3 n4 n5 n6 n7 n8 n9 n10 n11 where
    t: "t = [dig n0, dig n1, CHR ''-'', dig n2, dig n3, CHR ''-'', dig n4, dig n5, CHR '' '',
          dig n6, dig n7, CHR '':'', dig n8, dig n9, CHR '':'', dig n10, dig n11]"
    by (rule ts_shape_expand)
  note f = start_qmodem_line
  show ?thesis
    unfolding t step_def f by simp
qed

lemma start_dial_line:
  shows "re_search r_start_qmodem (marker_line ''#### start_dial''
         [dig n0, dig n1, CHR ''-'', dig n2, dig n3, CHR ''-'', dig n4, dig n5, CHR '' '',
          dig n6, dig n7, CHR '':'', dig n8, dig n9, CHR '':'', dig n10, dig n11]) = None"
    "re_search r_abort (marker_line ''#### start_dial''
         [dig n0, dig n1, CHR ''-'', dig n2, dig n3, CHR ''-'', dig n4, dig n5, CHR '' '',
          dig n6, dig n7, CHR '':'', dig n8, dig n9, CHR '':'', dig n10, dig n11]) = None"
    "re_search r_start_dial (marker_line ''#### start_dial''
         [dig n0, dig n1, CHR ''-'', dig n2, dig n3, CHR ''-'', dig n4, dig n5, CHR '' '',
          dig n6, dig n7, CHR '':'', dig n8, dig n9, CHR '':'', dig n10, dig n11])
       = Some [(1, [dig n0, dig n1, CHR ''-'', dig n2, dig n3, CHR ''-'', dig n4, dig n5, CHR '' '',
          dig n6, dig n7, CHR '':'', dig n8, dig n9, CHR '':'', dig n10, dig n11])]"
  by (simp_all add: marker_line_def re_eval)

lemma step_start_dial:
  assumes "ts_shape t"
  shows "step nm (marker_line ''#### start_dial'' t) st
           = on_start_dial [(1, t)] st"
proof -
  from assms obtain n0 n1 n2 n3 n4 n5 n6 n7 n8 n9 n10 n11 where
    t: "t = [dig n0, dig n1, CHR ''-'', dig n2, dig n3, CHR ''-'', dig n4, dig n5, CHR '' '',
          dig n6, dig n7, CHR '':'', dig n8, dig n9, CHR '':'', dig n10, dig n11]"
    by (rule ts_shape_expand)
  note f = start_dial_line
  show ?thesis
    unfolding t step_def f by simp
qed

lemma connected_line:
  shows "re_search r_start_qmodem (marker_line ''#### connected''
         [dig n0, dig n1, CHR ''-'', dig n2, dig n3, CHR ''-'', dig n4, dig n5, CHR '' '',
          dig n6, dig n7, CHR '':'', dig n8, dig n9, CHR '':'', dig n10, dig n11]) = None"
    "re_search r_abort (marker_line ''#### connected''
         [dig n0, dig n1, CHR ''-'', dig n2, dig n3, CHR ''-'', dig n4, dig n5, CHR '' '',
          dig n6, dig n7, CHR '':'', dig n8, dig n9, CHR '':'', dig n10, dig n11]) = None"
    "re_search r_start_dial (marker_line ''#### connected''
         [dig n0, dig n1, CHR ''-'', dig n2, dig n3, CHR ''-'', dig n4, dig n5, CHR '' '',
          dig n6, dig n7, CHR '':'', dig n8, dig n9, CHR '':'', dig n10, dig n11]) = None"
    "re_search r_connected (marker_line ''#### connected''
         [dig n0, dig n1, CHR ''-'', dig n2, dig n3, CHR ''-'', dig n4, dig n5, CHR '' '',
          dig n6, dig n7, CHR '':'', dig n8, dig n9, CHR '':'', dig n10, dig n11])
       = Some [(1, [dig n0, dig n1, CHR ''-'', dig n2, dig n3, CHR ''-'', dig n4, dig n5, CHR '' '',
          dig n6, dig n7, CHR '':'', dig n8, dig n9, CHR '':'', dig n10, dig n11])]"
  by (simp_all add: marker_line_def re_eval)

lemma step_connected:
  assumes "ts_shape t"
  shows "step nm (marker_line ''#### connected'' t) st
           = on_connected [(1, t)] st"
proof -
  from assms obtain n0 n1 n2 n3 n4 n5 n6 n7 n8 n9 n10 n11 where
    t: "t = [dig n0, dig n1, CHR ''-'', dig n2, dig n3, CHR ''-'', dig n4, dig n5, CHR '' '',
          dig n6, dig n7, CHR '':'', dig n8, dig n9, CHR '':'', dig n10, dig n11]"
    by (rule ts_shape_expand)
  note f = connected_line
  show ?thesis
    unfolding t step_def f by simp
qed

lemma start_download_line:
  shows "re_search r_start_qmodem (marker_line ''### start_download''
         [dig n0, dig n1, CHR ''-'', dig n2, dig n3, CHR ''-'', dig n4, dig n5, CHR '' '',
          dig n6, dig n7, CHR '':'', dig n8, dig n9, CHR '':'', dig n10, dig n11]) = None"
    "re_search r_abort (marker_line ''### start_download''
         [dig n0, dig n1, CHR ''-'', dig n2, dig n3, CHR ''-'', dig n4, dig n5, CHR '' '',
          dig n6, dig n7, CHR '':'', dig n8, dig n9, CHR '':'', dig n10, dig n11]) = None"
    "re_search r_start_dial (marker_line ''### start_download''
         [dig n0, dig n1, CHR ''-'', dig n2, dig n3, CHR ''-'', dig n4, dig n5, CHR '' '',
          dig n6, dig n7, CHR '':'', dig n8, dig n9, CHR '':'', dig n10, dig n11]) = None"
    "re_search r_connected (marker_line ''### start_download''
         [dig n0, dig n1, CHR ''-'', dig n2, dig n3, CHR ''-'', dig n4, dig n5, CHR '' '',
          dig n6, dig n7, CHR '':'', dig n8, dig n9, CHR '':'', dig n10, dig n11]) = None"
    "re_search r_wc_banner (marker_line ''### start_download''
         [dig n0, dig n1, CHR ''-'', dig n2, dig n3, CHR ''-'', dig n4, dig n5, CHR '' '',
          dig n6, dig n7, CHR '':'', dig n8, dig n9, CHR '':'', dig n10, dig n11]) = None"
    "re_search r_start_download (marker_line ''### start_download''
         [dig n0, dig n1, CHR ''-'', dig n2, dig n3, CHR ''-'', dig n4, dig n5, CHR '' '',
          dig n6, dig n7, CHR '':'', dig n8, dig n9, CHR '':'', dig n10, dig n11])
       = Some [(1, [dig n0, dig n1, CHR ''-'', dig n2, dig n3, CHR ''-'', dig n4, dig n5, CHR '' '',
          dig n6, dig n7, CHR '':'', dig n8, dig n9, CHR '':'', dig n10, dig n11])]"
  by (simp_all add: marker_line_def re_eval)

lemma step_start_download:
  assumes "ts_shape t"
  shows "step nm (marker_line ''### start_download'' t) st
           = on_start_download [(1, t)] st"
proof -
  from assms obtain n0 n1 n2 n3 n4 n5 n6 n7 n8 n9 n10 n11 where
    t: "t = [dig n0, dig n1, CHR ''-'', dig n2, dig n3, CHR ''-'', dig n4, dig n5, CHR '' '',
          dig n6, dig n7, CHR '':'', dig n8, dig n9, CHR '':'', dig n10, dig n11]"
    by (rule ts_shape_expand)
  note f = start_download_line
  show ?thesis
    unfolding t step_def f by simp
qed

lemma end_download_line:
  shows "re_search r_start_qmodem (marker_line ''### end_download''
         [dig n0, dig n1, CHR ''-'', dig n2, dig n3, CHR ''-'', dig n4, dig n5, CHR '' '',
          dig n6, dig n7, CHR '':'', dig n8, dig n9, CHR '':'', dig n10, dig n11]) = None"
    "re_search r_abort (marker_line ''### end_download''
         [dig n0, dig n1, CHR ''-'', dig n2, dig n3, CHR ''-'', dig n4, dig n5, CHR '' '',
          dig n6, dig n7, CHR '':'', dig n8, dig n9, CHR '':'', dig n10, dig n11]) = None"
    "re_search r_start_dial (marker_line ''### end_download''
         [dig n0, dig n1, CHR ''-'', dig n2, dig n3, CHR ''-'', dig n4, dig n5, CHR '' '',
          dig n6, dig n7, CHR '':'', dig n8, dig n9, CHR '':'', dig n10, dig n11]) = None"
    "re_search r_connected (marker_line ''### end_download''
         [dig n0, dig n1, CHR ''-'', dig n2, dig n3, CHR ''-'', dig n4, dig n5, CHR '' '',
          dig n6, dig n7, CHR '':'', dig n8, dig n9, CHR '':'', dig n10, dig n11]) = None"
    "re_search r_wc_banner (marker_line ''### end_download''
         [dig n0, dig n1, CHR ''-'', dig n2, dig n3, CHR ''-'', dig n4, dig n5, CHR '' '',
          dig n6, dig n7, CHR '':'', dig n8, dig n9, CHR '':'', dig n10, dig n11]) = None"
    "re_search r_start_download (marker_line ''### end_download''
         [dig n0, dig n1, CHR ''-'', dig n2, dig n3, CHR ''-'', dig n4, dig n5, CHR '' '',
          dig n6, dig n7, CHR '':'', dig n8, dig n9, CHR '':'', dig n10, dig n11]) = None"
    "re_search r_end_download (marker_line ''### end_download''
         [dig n0, dig n1, CHR ''-'', dig n2, dig n3, CHR ''-'', dig n4, dig n5, CHR '' '',
          dig n6, dig n7, CHR '':'', dig n8, dig n9, CHR '':'', dig n10, dig n11])
       = Some [(1, [dig n0, dig n1, CHR ''-'', dig n2, dig n3, CHR ''-'', dig n4, dig n5, CHR '' '',
          dig n6, dig n7, CHR '':'', dig n8, dig n9, CHR '':'', dig n10, dig n11])]"
  by (simp_all add: marker_line_def re_eval)

lemma step_end_download:
  assumes "ts_shape t"
  shows "step nm (marker_line ''### end_download'' t) st
           = on_end_download [(1, t)] st"
proof -
  from assms obtain n0 n1 n2 n3 n4 n5 n6 n7 n8 n9 n10 n11 where
    t: "t = [dig n0, dig n1, CHR ''-'', dig n2, dig n3, CHR ''-'', dig n4, dig n5, CHR '' '',
          dig n6, dig n7, CHR '':'', dig n8, dig n9, CHR '':'', dig n10, dig n11]"
    by (rule ts_shape_expand)
  note f = end_download_line
  show ?thesis
    unfolding t step_def f by simp
qed

lemma end_call_line:
  shows "re_search r_start_qmodem (marker_line ''#### end_call''
         [dig n0, dig n1, CHR ''-'', dig n2, dig n3, CHR ''-'', dig n4, dig n5, CHR '' '',
          dig n6, dig n7, CHR '':'', dig n8, dig n9, CHR '':'', dig n10, dig n11]) = None"
    "re_search r_abort (marker_line ''#### end_call''
         [dig n0, dig n1, CHR ''-'', dig n2, dig n3, CHR ''-'', dig n4, dig n5, CHR '' '',
          dig n6, dig n7, CHR '':'', dig n8, dig n9, CHR '':'', dig n10, dig n11]) = None"
    "re_search r_start_dial (marker_line ''#### end_call''
         [dig n0, dig n1, CHR ''-'', dig n2, dig n3, CHR ''-'', dig n4, dig n5, CHR '' '',
          dig n6, dig n7, CHR '':'', dig n8, dig n9, CHR '':'', dig n10, dig n11]) = None"
    "re_search r_connected (marker_line ''#### end_call''
         [dig n0, dig n1, CHR ''-'', dig n2, dig n3, CHR ''-'', dig n4, dig n5, CHR '' '',
          dig n6, dig n7, CHR '':'', dig n8, dig n9, CHR '':'', dig n10, dig n11]) = None"
    "re_search r_wc_banner (marker_line ''#### end_call''
         [dig n0, dig n1, CHR ''-'', dig n2, dig n3, CHR ''-'', dig n4, dig n5, CHR '' '',
          dig n6, dig n7, CHR '':'', dig n8, dig n9, CHR '':'', dig n10, dig n11]) = None"
    "re_search r_start_download (marker_line ''#### end_call''
         [dig n0, dig n1, CHR ''-'', dig n2, dig n3, CHR ''-'', dig n4, dig n5, CHR '' '',
          dig n6, dig n7, CHR '':'', dig n8, dig n9, CHR '':'', dig n10, dig n11]) = None"
    "re_search r_end_download (marker_line ''#### end_call''
         [dig n0, dig n1, CHR ''-'', dig n2, dig n3, CHR ''-'', dig n4, dig n5, CHR '' '',
          dig n6, dig n7, CHR '':'', dig n8, dig n9, CHR '':'', dig n10, dig n11]) = None"
    "re_search r_dl_status_cps (marker_line ''#### end_call''
         [dig n0, dig n1, CHR ''-'', dig n2, dig n3, CHR ''-'', dig n4, dig n5, CHR '' '',
          dig n6, dig n7, CHR '':'', dig n8, dig n9, CHR '':'', dig n10, dig n11]) = None"
    "re_match r_end_call (marker_line ''#### end_call''
         [dig n0, dig n1, CHR ''-'', dig n2, dig n3, CHR ''-'', dig n4, dig n5, CHR '' '',
          dig n6, dig n7, CHR '':'', dig n8, dig n9, CHR '':'', dig n10, dig n11])
       = Some [(1, [dig n0, dig n1, CHR ''-'', dig n2, dig n3, CHR ''-'', dig n4, dig n5, CHR '' '',
          dig n6, dig n7, CHR '':'', dig n8, dig n9, CHR '':'', dig n10, dig n11])]"
  by (simp_all add: marker_line_def re_eval)

lemma step_end_call:
  assumes "ts_shape t"
  shows "step nm (marker_line ''#### end_call'' t) st
           = on_end_call [(1, t)] st"
proof -
  from assms obtain n0 n1 n2 n3 n4 n5 n6 n7 n8 n9 n10 n11 where
    t: "t = [dig n0, dig n1, CHR ''-'', dig n2, dig n3, CHR ''-'', dig n4, dig n5, CHR '' '',
          dig n6, dig n7, CHR '':'', dig n8, dig n9, CHR '':'', dig n10, dig n11]"
    by (rule ts_shape_expand)
  note f = end_call_line
  show ?thesis
    unfolding t step_def f by simp
qed

lemma exit_qmodem_line:
  shows "re_search r_start_qmodem (marker_line ''#### exit_qmodem''
         [dig n0, dig n1, CHR ''-'', dig n2, dig n3, CHR ''-'', dig n4, dig n5, CHR '' '',
          dig n6, dig n7, CHR '':'', dig n8, dig n9, CHR '':'', dig n10, dig n11]) = None"
    "re_search r_abort (marker_line ''#### exit_qmodem''
         [dig n0, dig n1, CHR ''-'', dig n2, dig n3, CHR ''-'', dig n4, dig n5, CHR '' '',
          dig n6, dig n7, CHR '':'', dig n8, dig n9, CHR '':'', dig n10, dig n11]) = None"
    "re_search r_start_dial (marker_line ''#### exit_qmodem''
         [dig n0, dig n1, CHR ''-'', dig n2, dig n3, CHR ''-'', dig n4, dig n5, CHR '' '',
          dig n6, dig n7, CHR '':'', dig n8, dig n9, CHR '':'', dig n10, dig n11]) = None"
    "re_search r_connected (marker_line ''#### exit_qmodem''
         [dig n0, dig n1, CHR ''-'', dig n2, dig n3, CHR ''-'', dig n4, dig n5, CHR '' '',
          dig n6, dig n7, CHR '':'', dig n8, dig n9, CHR '':'', dig n10, dig n11]) = None"
    "re_search r_wc_banner (marker_line ''#### exit_qmodem''
         [dig n0, dig n1, CHR ''-'', dig n2, dig n3, CHR ''-'', dig n4, dig n5, CHR '' '',
          dig n6, dig n7, CHR '':'', dig n8, dig n9, CHR '':'', dig n10, dig n11]) = None"
    "re_search r_start_download (marker_line ''#### exit_qmodem''
         [dig n0, dig n1, CHR ''-'', dig n2, dig n3, CHR ''-'', dig n4, dig n5, CHR '' '',
          dig n6, dig n7, CHR '':'', dig n8, dig n9, CHR '':'', dig n10, dig n11]) = None"
    "re_search r_end_download (marker_line ''#### exit_qmodem''
         [dig n0, dig n1, CHR ''-'', dig n2, dig n3, CHR ''-'', dig n4, dig n5, CHR '' '',
          dig n6, dig n7, CHR '':'', dig n8, dig n9, CHR '':'', dig n10, dig n11]) = None"
    "re_search r_dl_status_cps (marker_line ''#### exit_qmodem''
         [dig n0, dig n1, CHR ''-'', dig n2, dig n3, CHR ''-'', dig n4, dig n5, CHR '' '',
          dig n6, dig n7, CHR '':'', dig n8, dig n9, CHR '':'', dig n10, dig n11]) = None"
    "re_match r_end_call (marker_line ''#### exit_qmodem''
         [dig n0, dig n1, CHR ''-'', dig n2, dig n3, CHR ''-'', dig n4, dig n5, CHR '' '',
          dig n6, dig n7, CHR '':'', dig n8, dig n9, CHR '':'', dig n10, dig n11]) = None"
    "re_match r_stats_ati6 (marker_line ''#### exit_qmodem''
         [dig n0, dig n1, CHR ''-'', dig n2, dig n3, CHR ''-'', dig n4, dig n5, CHR '' '',
          dig n6, dig n7, CHR '':'', dig n8, dig n9, CHR '':'', dig n10, dig n11]) = None"
    "re_match r_stats_ati6_end (marker_line ''#### exit_qmodem''
         [dig n0, dig n1, CHR ''-'', dig n2, dig n3, CHR ''-'', dig n4, dig n5, CHR '' '',
          dig n6, dig n7, CHR '':'', dig n8, dig n9, CHR '':'', dig n10, dig n11]) = None"
    "re_match r_stats_ati11 (marker_line ''#### exit_qmodem''
         [dig n0, dig n1, CHR ''-'', dig n2, dig n3, CHR ''-'', dig n4, dig n5, CHR '' '',
          dig n6, dig n7, CHR '':'', dig n8, dig n9, CHR '':'', dig n10, dig n11]) = None"
    "re_match r_stats_ati11_end (marker_line ''#### exit_qmodem''
         [dig n0, dig n1, CHR ''-'', dig n2, dig n3, CHR ''-'', dig n4, dig n5, CHR '' '',
          dig n6, dig n7, CHR '':'', dig n8, dig n9, CHR '':'', dig n10, dig n11]) = None"
    "re_match r_exit_qmodem (marker_line ''#### exit_qmodem''
         [dig n0, dig n1, CHR ''-'', dig n2, dig n3, CHR ''-'', dig n4, dig n5, CHR '' '',
          dig n6, dig n7, CHR '':'', dig n8, dig n9, CHR '':'', dig n10, dig n11])
       = Some [(1, [dig n0, dig n1, CHR ''-'', dig n2, dig n3, CHR ''-'', dig n4, dig n5, CHR '' '',
          dig n6, dig n7, CHR '':'', dig n8, dig n9, CHR '':'', dig n10, dig n11])]"
  by (simp_all add: marker_line_def re_eval)

lemma step_exit_qmodem:
  assumes "ts_shape t"
  shows "step nm (marker_line ''#### exit_qmodem'' t) st
           = on_exit_qmodem [(1, t)]
             (if in_ati st then st\<lparr>ati_lines := ati_lines st @ [strip (marker_line ''#### exit_qmodem'' t)]\<rparr> else st)"
proof -
  from assms obtain n0 n1 n2 n3 n4 n5 n6 n7 n8 n9 n10 n11 where
    t: "t = [dig n0, dig n1, CHR ''-'', dig n2, dig n3, CHR ''-'', dig n4, dig n5, CHR '' '',
          dig n6, dig n7, CHR '':'', dig n8, dig n9, CHR '':'', dig n10, dig n11]"
    by (rule ts_shape_expand)
  note f = exit_qmodem_line
  show ?thesis
    unfolding t step_def step_tail_def f Let_def by simp
qed

lemma parse_log_ts_shape: "parse_log_ts t = Inr d \<Longrightarrow> ts_shape t"
  by (auto simp: parse_log_ts_def split: if_splits)

lemma parse_group_ts_single [simp]: "parse_group_ts [(n, t)] n = parse_log_ts t"
  by (simp add: parse_group_ts_def group_def)

lemma step_successful_result:
  assumes "successful_result res" and "cur_record st = Some r"
  shows "\<exists>x. step nm res st
               = Inr (st\<lparr>cur_record := Some (r\<lparr>download_success := Some True,
                                                download_cps := x\<rparr>),
                         ctrs := (ctrs st)\<lparr>count_download_success :=
                                              count_download_success (ctrs st) + 1\<rparr>\<rparr>)"
proof -
  from assms(1) obtain m where m: "download_result_of res = Some m"
    and g1: "group m 1 = Some ''SUCCESSFUL!''"
    and cps: "case group m 2 of
                None \<Rightarrow> True
              | Some cps \<Rightarrow>
                  cps = []
                  \<or> (case py_int (filter (\<lambda>c. c \<noteq> CHR '','') cps) of
                        Inl e \<Rightarrow> False | Inr n \<Rightarrow> True)"
    by (auto simp: successful_result_def split: option.splits)
  have none: "re_search r_start_qmodem res = None" "re_search r_abort res = None"
    "re_search r_start_dial res = None" "re_search r_connected res = None"
    "re_search r_wc_banner res = None" "re_search r_start_download res = None"
    "re_search r_end_download res = None"
    and s: "re_search r_dl_status_cps res = Some m"
    using m by (auto simp: download_result_of_def split: if_splits)
  have step: "step nm res st = on_download_result m st"
    by (simp add: step_def none s)
  let ?c = "(ctrs st)\<lparr>count_download_success := count_download_success (ctrs st) + 1\<rparr>"
  show ?thesis
  proof (cases "group m 2")
    case None
    then have "step nm res st
                 = Inr (st\<lparr>cur_record := Some (r\<lparr>download_success := Some True,
                                                  download_cps := download_cps r\<rparr>),
                           ctrs := ?c\<rparr>)"
      using step assms(2) g1
      by (simp add: on_download_result_def mark_download_success_def Let_def)
    then show ?thesis by (rule exI)
  next
    case (Some cps)
    show ?thesis
    proof (cases "cps = []")
      case True
      then have "step nm res st
                   = Inr (st\<lparr>cur_record := Some (r\<lparr>download_success := Some True,
                                                    download_cps := download_cps r\<rparr>),
                             ctrs := ?c\<rparr>)"
        using step assms(2) g1 Some
        by (simp add: on_download_result_def mark_download_success_def Let_def)
      then show ?thesis by (rule exI)
    next
      case False
      then obtain n where n: "py_int (filter (\<lambda>c. c \<noteq> CHR '','') cps) = Inr n"
        using cps Some by (auto split: sum.splits)
      have "step nm res st
                   = Inr (st\<lparr>cur_record := Some (r\<lparr>download_success := Some True,
                                                    download_cps := Some n\<rparr>),
                             ctrs := ?c\<rparr>)"
        using step assms(2) g1 Some False n
        by (simp add: on_download_result_def mark_download_success_def Let_def set_field_def)
      then show ?thesis by (rule exI)
    qed
  qed
qed

section \<open>What a match tells about the line\<close>

subsection \<open>The repetitions of the matcher\<close>

lemma rm_One:
  "rm (R (One cl) # k) s c = Some res
   \<longleftrightarrow> (\<exists>x v. s = x # v \<and> in_cls cl x \<and> rm k v c = Some res)"
  by (cases s) auto

lemma rm_Star_sound:
  assumes "rm (R (Star cl) # k) s c = Some res"
  shows "\<exists>u v. s = u @ v \<and> list_all (in_cls cl) u \<and> rm k v c = Some res"
  using assms
proof (induction s)
  case Nil
  then show ?case by simp
next
  case (Cons x xs)
  show ?case
  proof (cases "in_cls cl x \<and> rm (R (Star cl) # k) xs c \<noteq> None")
    case True
    then have "rm (R (Star cl) # k) xs c = Some res"
      using Cons.prems by auto
    from Cons.IH [OF this] obtain u v where "xs = u @ v" "list_all (in_cls cl) u"
      "rm k v c = Some res" by blast
    then have "x # xs = (x # u) @ v \<and> list_all (in_cls cl) (x # u) \<and> rm k v c = Some res"
      using True by simp
    then show ?thesis by blast
  next
    case False
    then have "rm k (x # xs) c = Some res"
      using Cons.prems by (auto split: if_splits option.splits)
    then have "x # xs = [] @ (x # xs) \<and> list_all (in_cls cl) [] \<and> rm k (x # xs) c = Some res"
      by simp
    then show ?thesis by blast
  qed
qed

lemma rm_StarLazy_sound:
  assumes "rm (R (StarLazy cl) # k) s c = Some res"
  shows "\<exists>u v. s = u @ v \<and> list_all (in_cls cl) u \<and> rm k v c = Some res"
  using assms
proof (induction s)
  case Nil
  then show ?case by simp
next
  case (Cons x xs)
  show ?case
  proof (cases "rm k (x # xs) c")
    case (Some r)
    then have "x # xs = [] @ (x # xs) \<and> list_all (in_cls cl) [] \<and> rm k (x # xs) c = Some res"
      using Cons.prems by simp
    then show ?thesis by blast
  next
    case None
    then have x: "in_cls cl x" and "rm (R (StarLazy cl) # k) xs c = Some res"
      using Cons.prems by (auto split: if_splits)
    from Cons.IH [OF this(2)] obtain u v where "xs = u @ v" "list_all (in_cls cl) u"
      "rm k v c = Some res" by blast
    then have "x # xs = (x # u) @ v \<and> list_all (in_cls cl) (x # u) \<and> rm k v c = Some res"
      using x by simp
    then show ?thesis by blast
  qed
qed

text \<open>Whether a match exists does not depend on the groups recorded so far.\<close>

lemma rm_None_caps: "rm k s c = None \<Longrightarrow> rm k s c' = None"
proof (induction k s c arbitrary: c' rule: rm.induct)
  case (3 p k s c)
  then show ?case by (auto split: option.splits)
next
  case (7 cl k x xs c)
  then show ?case by (auto split: if_splits option.splits)
next
  case (9 cl k x xs c)
  then show ?case by (auto split: if_splits option.splits)
next
  case (13 a b k s c)
  then show ?case by (auto split: option.splits)
next
  case (14 a k s c)
  then show ?case by (auto split: option.splits)
qed (auto split: if_splits)

lemma rm_Some_caps:
  assumes "rm k s c \<noteq> None"
  shows "rm k s c' \<noteq> None"
proof
  assume "rm k s c' = None"
  then have "rm k s c = None" by (rule rm_None_caps)
  with assms show False by simp
qed

lemma rm_Star_complete:
  assumes "list_all (in_cls cl) u" and "rm k v c \<noteq> None"
  shows "rm (R (Star cl) # k) (u @ v) c \<noteq> None"
  using assms
proof (induction u)
  case Nil
  then show ?case by (cases v) (auto split: option.splits)
next
  case (Cons x u)
  then show ?case by (auto split: option.splits)
qed

lemma rm_StarLazy_complete:
  assumes "list_all (in_cls cl) u" and "rm k v c \<noteq> None"
  shows "rm (R (StarLazy cl) # k) (u @ v) c \<noteq> None"
  using assms
proof (induction u)
  case Nil
  then show ?case by (cases v) (auto split: option.splits)
next
  case (Cons x u)
  then show ?case by (auto split: option.splits)
qed


subsection \<open>One-or-more repetitions, alone and as a group\<close>

lemma rm_Plus_sound:
  assumes "rm (R (Plus cl) # k) s c = Some res"
  shows "\<exists>x u v. s = x # u @ v \<and> in_cls cl x \<and> list_all (in_cls cl) u
                  \<and> rm k v c = Some res"
proof -
  from assms obtain x s1 where s: "s = x # s1" and x: "in_cls cl x"
    and "rm (R (Star cl) # k) s1 c = Some res"
    by (auto simp: rm_One)
  from rm_Star_sound [OF this(3)] obtain u v where "s1 = u @ v" "list_all (in_cls cl) u"
    "rm k v c = Some res" by blast
  then show ?thesis using s x by blast
qed

lemma take_group [simp]: "take (length (x # u @ v) - length v) (x # u @ v) = x # u"
  by simp

lemma rm_Grp_Plus_sound:
  assumes "rm (R (Grp n (Plus cl)) # k) s c = Some res"
  shows "\<exists>x u v. s = x # u @ v \<and> in_cls cl x \<and> list_all (in_cls cl) u
                  \<and> rm k v (AList.update n (x # u) c) = Some res"
proof -
  from assms have "rm (R (Plus cl) # Close n s # k) s c = Some res" by simp
  from rm_Plus_sound [OF this] obtain x u v where s: "s = x # u @ v" and x: "in_cls cl x"
    and u: "list_all (in_cls cl) u" and "rm (Close n s # k) v c = Some res"
    by blast
  then have "rm k v (AList.update n (x # u) c) = Some res" by simp
  then show ?thesis using s x u by blast
qed

lemma rm_Grp_PlusLazy_sound:
  assumes "rm (R (Grp n (PlusLazy cl)) # k) s c = Some res"
  shows "\<exists>x u v. s = x # u @ v \<and> in_cls cl x \<and> list_all (in_cls cl) u
                  \<and> rm k v (AList.update n (x # u) c) = Some res"
proof -
  from assms obtain x s1 where s: "s = x # s1" and x: "in_cls cl x"
    and "rm (R (StarLazy cl) # Close n s # k) s1 c = Some res"
    by (auto simp: rm_One)
  from rm_StarLazy_sound [OF this(3)] obtain u v where s1: "s1 = u @ v"
    and u: "list_all (in_cls cl) u" and "rm (Close n s # k) v c = Some res"
    by blast
  then have "rm k v (AList.update n (x # u) c) = Some res" using s by simp
  then show ?thesis using s s1 x u by blast
qed

lemma rm_Plus_complete:
  assumes "in_cls cl x" and "list_all (in_cls cl) u" and "rm k v c \<noteq> None"
  shows "rm (R (Plus cl) # k) (x # u @ v) c \<noteq> None"
  using assms rm_Star_complete [of cl u k v c] by simp

lemma rm_Grp_Plus_complete:
  assumes "in_cls cl x" and "list_all (in_cls cl) u" and "rm k v c0 \<noteq> None"
  shows "rm (R (Grp n (Plus cl)) # k) (x # u @ v) c \<noteq> None"
proof -
  have "rm (Close n (x # u @ v) # k) v c \<noteq> None"
    using rm_Some_caps [OF assms(3)] by simp
  from rm_Plus_complete [OF assms(1,2) this] show ?thesis by simp
qed

lemma rm_Grp_PlusLazy_complete:
  assumes "in_cls cl x" and "list_all (in_cls cl) u" and "rm k v c0 \<noteq> None"
  shows "rm (R (Grp n (PlusLazy cl)) # k) (x # u @ v) c \<noteq> None"
proof -
  have "rm (Close n (x # u @ v) # k) v c \<noteq> None"
    using rm_Some_caps [OF assms(3)] by simp
  from rm_StarLazy_complete [OF assms(2) this] show ?thesis using assms(1) by simp
qed

subsection \<open>The three line patterns of the parser\<close>

lemma group_update [simp]:
  "group (AList.update n v c) n' = (if n' = n then Some v else group c n')"
  by (simp add: group_def update_conv')

lemma group_empty [simp]: "group [] n = None"
  by (simp add: group_def)

lemma rm_Cat: "rm (R (Cat a b) # k) s c = rm (R a # R b # k) s c"
  by simp

lemma p_two_pairs_groups:
  assumes "re_match p_two_pairs l = Some m"
  shows "\<exists>k1 v1 k2 v2. group m 1 = Some k1 \<and> group m 2 = Some v1 \<and> all_digits v1
                      \<and> group m 3 = Some k2 \<and> group m 4 = Some v2 \<and> all_digits v2"
proof -
  let ?r6 = "Cat (Plus Spc) (Grp 4 (Plus Dig))"
  let ?r5 = "Cat (Grp 3 (PlusLazy Dot)) ?r6"
  let ?r4 = "Cat (Plus Spc) ?r5"
  let ?r3 = "Cat (Grp 2 (Plus Dig)) ?r4"
  let ?r2 = "Cat (Plus Spc) ?r3"
  from assms obtain rest where
    a0: "rm [R (Cat (Grp 1 (PlusLazy Dot)) ?r2)] l [] = Some (m, rest)"
    unfolding re_match_def p_two_pairs_def seq.simps by auto
  from rm_Grp_PlusLazy_sound [OF a0 [unfolded rm_Cat]] obtain x1 u1 l1 where
    a1: "rm [R ?r2] l1 (AList.update 1 (x1 # u1) []) = Some (m, rest)"
    by blast
  let ?c1 = "AList.update 1 (x1 # u1) []"
  from rm_Plus_sound [OF a1 [unfolded rm_Cat]] obtain l2 where
    a2: "rm [R ?r3] l2 ?c1 = Some (m, rest)"
    by blast
  from rm_Grp_Plus_sound [OF a2 [unfolded rm_Cat]] obtain x2 u2 l3 where
    d2: "in_cls Dig x2" "list_all (in_cls Dig) u2"
    and a3: "rm [R ?r4] l3 (AList.update 2 (x2 # u2) ?c1) = Some (m, rest)"
    by blast
  let ?c2 = "AList.update 2 (x2 # u2) ?c1"
  from rm_Plus_sound [OF a3 [unfolded rm_Cat]] obtain l4 where
    a4: "rm [R ?r5] l4 ?c2 = Some (m, rest)"
    by blast
  from rm_Grp_PlusLazy_sound [OF a4 [unfolded rm_Cat]] obtain x3 u3 l5 where
    a5: "rm [R ?r6] l5 (AList.update 3 (x3 # u3) ?c2) = Some (m, rest)"
    by blast
  let ?c3 = "AList.update 3 (x3 # u3) ?c2"
  from rm_Plus_sound [OF a5 [unfolded rm_Cat]] obtain l6 where
    a6: "rm [R (Grp 4 (Plus Dig))] l6 ?c3 = Some (m, rest)"
    by blast
  from rm_Grp_Plus_sound [OF a6] obtain x4 u4 l7 where
    d4: "in_cls Dig x4" "list_all (in_cls Dig) u4"
    and a7: "rm [] l7 (AList.update 4 (x4 # u4) ?c3) = Some (m, rest)"
    by blast
  from a7 have m: "m = AList.update 4 (x4 # u4) ?c3"
    by simp
  have "all_digits (x2 # u2)" "all_digits (x4 # u4)"
    using d2 d4 by (simp_all add: all_digits_def list_all_iff)
  then show ?thesis unfolding m by (simp add: group_def)
qed

lemma p_number_groups:
  assumes "re_match p_number l = Some m"
  shows "\<exists>k v. group m 1 = Some k \<and> group m 2 = Some v \<and> all_digits v"
proof -
  let ?r3 = "Cat (Plus Spc) (Grp 2 (Plus Dig))"
  let ?r2 = "Cat (One Spc) ?r3"
  from assms obtain rest where
    a0: "rm [R (Cat (Grp 1 (PlusLazy Dot)) ?r2)] l [] = Some (m, rest)"
    unfolding re_match_def p_number_def seq.simps by auto
  from rm_Grp_PlusLazy_sound [OF a0 [unfolded rm_Cat]] obtain x1 u1 l1 where
    a1: "rm [R ?r2] l1 (AList.update 1 (x1 # u1) []) = Some (m, rest)"
    by blast
  let ?c1 = "AList.update 1 (x1 # u1) []"
  from a1 [unfolded rm_Cat rm_One] obtain l2 where
    a2: "rm [R (Plus Spc), R (Grp 2 (Plus Dig))] l2 ?c1 = Some (m, rest)"
    by blast
  from rm_Plus_sound [OF a2] obtain l3 where
    a3: "rm [R (Grp 2 (Plus Dig))] l3 ?c1 = Some (m, rest)"
    by blast
  from rm_Grp_Plus_sound [OF a3] obtain x2 u2 l4 where
    d: "in_cls Dig x2" "list_all (in_cls Dig) u2"
    and a4: "rm [] l4 (AList.update 2 (x2 # u2) ?c1) = Some (m, rest)"
    by blast
  from a4 have m: "m = AList.update 2 (x2 # u2) ?c1"
    by simp
  have "all_digits (x2 # u2)"
    using d by (simp add: all_digits_def list_all_iff)
  then show ?thesis unfolding m by (simp add: group_def)
qed

text \<open>
  When the text pattern matches with an all-digit value, the number pattern matches
  too: the number pattern is tried first, so a value stored as text is never all
  digits.
\<close>

lemma p_text_groups:
  assumes "re_match p_text l = Some m"
  shows "\<exists>k v. group m 1 = Some k \<and> group m 2 = Some v
               \<and> (all_digits v \<longrightarrow> re_match p_number l \<noteq> None)"
proof -
  let ?r3 = "Cat (Plus Spc) (Grp 2 (Plus Dot))"
  let ?r2 = "Cat (One Spc) ?r3"
  let ?n3 = "Cat (Plus Spc) (Grp 2 (Plus Dig))"
  let ?n2 = "Cat (One Spc) ?n3"
  from assms obtain rest where
    a0: "rm [R (Cat (Grp 1 (PlusLazy Dot)) ?r2)] l [] = Some (m, rest)"
    unfolding re_match_def p_text_def seq.simps by auto
  from rm_Grp_PlusLazy_sound [OF a0 [unfolded rm_Cat]] obtain x1 u1 l1 where
    l: "l = x1 # u1 @ l1" and k: "in_cls Dot x1" "list_all (in_cls Dot) u1"
    and a1: "rm [R ?r2] l1 (AList.update 1 (x1 # u1) []) = Some (m, rest)"
    by blast
  let ?c1 = "AList.update 1 (x1 # u1) []"
  from a1 [unfolded rm_Cat rm_One] obtain w1 l2 where
    l1: "l1 = w1 # l2" and w1: "in_cls Spc w1"
    and a2: "rm [R (Plus Spc), R (Grp 2 (Plus Dot))] l2 ?c1 = Some (m, rest)"
    by blast
  from rm_Plus_sound [OF a2] obtain w2 ws l3 where
    l2: "l2 = w2 # ws @ l3" and w2: "in_cls Spc w2" "list_all (in_cls Spc) ws"
    and a3: "rm [R (Grp 2 (Plus Dot))] l3 ?c1 = Some (m, rest)"
    by blast
  from rm_Grp_Plus_sound [OF a3] obtain y u2 l4 where
    l3: "l3 = y # u2 @ l4"
    and a4: "rm [] l4 (AList.update 2 (y # u2) ?c1) = Some (m, rest)"
    by blast
  from a4 have m: "m = AList.update 2 (y # u2) ?c1"
    by simp
  have "re_match p_number l \<noteq> None" if "all_digits (y # u2)"
  proof -
    from that have y: "in_cls Dig y" by (simp add: all_digits_def)
    have "rm [] (u2 @ l4) [] \<noteq> None" by simp
    from rm_Grp_Plus_complete [OF y _ this, of "[]" 2 "[]"]
    have c3: "rm [R (Grp 2 (Plus Dig))] l3 [] \<noteq> None"
      by (simp add: l3)
    from rm_Plus_complete [OF w2 c3]
    have c2: "rm [R ?n3] l2 [] \<noteq> None"
      unfolding rm_Cat l2 .
    then have c1: "rm [R ?n2] l1 [] \<noteq> None"
      unfolding rm_Cat l1 using w1 by simp
    from rm_Grp_PlusLazy_complete [OF k c1, of 1 "[]"]
    have "rm [R (Cat (Grp 1 (PlusLazy Dot)) ?n2)] l [] \<noteq> None"
      unfolding rm_Cat l .
    then show ?thesis
      unfolding re_match_def p_number_def seq.simps by simp
  qed
  then show ?thesis unfolding m by (simp add: group_def)
qed

section \<open>The field parser against its specification\<close>

lemma int_body_ok_digits: "s \<noteq> [] \<Longrightarrow> list_all is_digit s \<Longrightarrow> int_body_ok s"
proof (induction s rule: int_body_ok.induct)
  case 1
  then show ?case by simp
next
  case (2 c)
  then show ?case by simp
next
  case (3 c d r)
  then have "d \<noteq> CHR ''_''" by (auto simp: is_digit_def)
  then show ?case using 3 by simp
qed

lemma strip_digits:
  assumes "all_digits v"
  shows "strip v = v"
proof -
  from assms obtain x xs where v: "v = x # xs" and x: "is_digit x"
    by (cases v) (auto simp: all_digits_def)
  have nospace: "\<And>c. is_digit c \<Longrightarrow> \<not> is_space c"
    by (auto simp: is_digit_def is_space_def)
  have front: "dropWhile is_space v = v"
    using v x nospace by simp
  have "rev v \<noteq> []" "is_digit (hd (rev v))"
    using assms by (auto simp: all_digits_def list_all_iff hd_rev)
  then have rear: "dropWhile is_space (rev v) = rev v"
    using nospace by (cases "rev v") auto
  show ?thesis
    by (simp add: strip_def front rear)
qed

lemma py_int_digits:
  assumes "all_digits v"
  shows "py_int v = Inr (digits_val v)"
proof -
  from assms obtain x xs where v: "v = x # xs" and x: "is_digit x"
    by (cases v) (auto simp: all_digits_def)
  have sign: "x \<noteq> CHR ''-''" "x \<noteq> CHR ''+''"
    using x by (auto simp: is_digit_def)
  have ok: "int_body_ok v"
    using assms by (simp add: all_digits_def int_body_ok_digits)
  have "\<And>c. c \<in> set v \<Longrightarrow> c \<noteq> CHR ''_''"
    using assms by (auto simp: all_digits_def list_all_iff is_digit_def)
  then have keep: "filter (\<lambda>c. c \<noteq> CHR ''_'') v = v"
    by (simp add: filter_id_conv)
  have "strip v = x # xs"
    using strip_digits [OF assms] v by simp
  then show ?thesis
    using sign ok keep v by (simp add: py_int_def Let_def)
qed

lemma mapped_nonempty:
  assumes "[] \<notin> snd ` set mapping" and "map_of mapping x = Some k"
  shows "k \<noteq> []"
proof
  assume "k = []"
  from assms(2) have "(x, k) \<in> set mapping" by (rule map_of_SomeD)
  then have "snd (x, k) \<in> snd ` set mapping" by (rule imageI)
  then have "[] \<in> snd ` set mapping" using \<open>k = []\<close> by simp
  with assms(1) show False by contradiction
qed

lemma store_int_spec:
  assumes "[] \<notin> snd ` set mapping"
    and "group m kg = Some label" and "group m vg = Some v" and "all_digits v"
  shows "store_int mapping m kg vg data = Inr (spec_store mapping data (label, v))"
  using assms mapped_nonempty [OF assms(1)]
  by (auto simp: store_int_def spec_store_def spec_value_def mapped_name_def py_int_digits
      split: option.splits)

lemma store_text_spec:
  assumes "[] \<notin> snd ` set mapping"
    and "group m kg = Some label" and "group m vg = Some v" and "\<not> all_digits v"
  shows "store_text mapping m kg vg data = Inr (spec_store mapping data (label, v))"
  using assms mapped_nonempty [OF assms(1)]
  by (auto simp: store_text_def spec_store_def spec_value_def mapped_name_def
      split: option.splits)

lemma parse_line_spec:
  assumes "[] \<notin> snd ` set mapping"
  shows "parse_line mapping line data
           = Inr (foldl (spec_store mapping) data (spec_pairs line))"
proof (cases "re_match p_vendor line \<noteq> None")
  case True
  then show ?thesis by (simp add: parse_line_def spec_pairs_def)
next
  case nv: False
  show ?thesis
  proof (cases "re_match p_two_pairs line")
    case (Some m)
    from p_two_pairs_groups [OF Some] obtain k1 v1 k2 v2 where
      g: "group m 1 = Some k1" "group m 2 = Some v1" "group m 3 = Some k2"
      "group m 4 = Some v2" and d: "all_digits v1" "all_digits v2"
      by blast
    have "parse_line mapping line data
            = bindE (store_int mapping m 1 2 data) (store_int mapping m 3 4)"
      using nv Some by (simp add: parse_line_def)
    also have "\<dots> = Inr (spec_store mapping (spec_store mapping data (k1, v1)) (k2, v2))"
      unfolding store_int_spec [OF assms g(1,2) d(1)] bindE_Inr
        store_int_spec [OF assms g(3,4) d(2)] ..
    also have "spec_store mapping (spec_store mapping data (k1, v1)) (k2, v2)
                 = foldl (spec_store mapping) data (spec_pairs line)"
      using nv Some g by (simp add: spec_pairs_def matched_pair_def)
    finally show ?thesis .
  next
    case n2: None
    show ?thesis
    proof (cases "re_match p_number line")
      case (Some m)
      from p_number_groups [OF Some] obtain k v where
        g: "group m 1 = Some k" "group m 2 = Some v" and d: "all_digits v"
        by blast
      have "parse_line mapping line data = store_int mapping m 1 2 data"
        using nv n2 Some by (simp add: parse_line_def)
      also have "\<dots> = Inr (spec_store mapping data (k, v))"
        by (rule store_int_spec [OF assms g d])
      also have "spec_store mapping data (k, v)
                   = foldl (spec_store mapping) data (spec_pairs line)"
        using nv n2 Some g by (simp add: spec_pairs_def matched_pair_def)
      finally show ?thesis .
    next
      case n3: None
      show ?thesis
      proof (cases "re_match p_text line")
        case (Some m)
        from p_text_groups [OF Some] n3 obtain k v where
          g: "group m 1 = Some k" "group m 2 = Some v" and d: "\<not> all_digits v"
          by blast
        have "parse_line mapping line data = store_text mapping m 1 2 data"
          using nv n2 n3 Some by (simp add: parse_line_def)
        also have "\<dots> = Inr (spec_store mapping data (k, v))"
          by (rule store_text_spec [OF assms g d])
        also have "spec_store mapping data (k, v)
                     = foldl (spec_store mapping) data (spec_pairs line)"
          using nv n2 n3 Some g by (simp add: spec_pairs_def matched_pair_def)
        finally show ?thesis .
      next
        case None
        then show ?thesis
          using nv n2 n3 by (simp add: parse_line_def spec_pairs_def)
      qed
    qed
  qed
qed

lemma parse_lines_spec:
  assumes "[] \<notin> snd ` set mapping"
  shows "parse_lines mapping ls data
           = Inr (foldl (spec_store mapping) data (concat (map spec_pairs ls)))"
proof (induction ls arbitrary: data)
  case Nil
  show ?case by simp
next
  case (Cons l ls)
  show ?case
    by (simp add: parse_line_spec [OF assms] Cons.IH)
qed

lemma update_entries:
  "(k', v') \<in> set (AList.update k v al) \<Longrightarrow> (k', v') \<in> set al \<or> (k' = k \<and> v' = v)"
  by (induction al) (auto split: if_splits)

lemma spec_store_entries:
  assumes "(k, v) \<in> set (foldl (spec_store mapping) data pairs)"
  shows "(k, v) \<in> set data
         \<or> (\<exists>(label, text) \<in> set pairs.
               map_of mapping (strip label) = Some k \<and> v = spec_value text)"
  using assms
proof (induction pairs arbitrary: data)
  case Nil
  then show ?case by simp
next
  case (Cons p ps)
  from Cons.IH [OF Cons.prems [simplified]]
  show ?case
  proof
    assume "(k, v) \<in> set (spec_store mapping data p)"
    then have "(k, v) \<in> set data
               \<or> (map_of mapping (strip (fst p)) = Some k \<and> v = spec_value (snd p))"
      by (auto simp: spec_store_def split: option.splits dest: update_entries)
    then show ?thesis by (cases p) auto
  next
    assume "\<exists>(label, text) \<in> set ps.
              map_of mapping (strip label) = Some k \<and> v = spec_value text"
    then show ?thesis by auto
  qed
qed

section \<open>The download success percentage\<close>

text \<open>
  Claim C3 says that with no downloads in the run (both download counters zero) the
  download success percentage of the aggregate report is 0%, with no division by
  zero. On the code, a run whose log has a complete call and no download-result line
  leaves both counters at zero, and \<open>report_aggregates\<close> then reports \<open>100.0\<close>: its
  guard tests the failure counter only. (The sibling \<open>connect_success_percent\<close>
  reports \<open>0.0\<close> when there was no attempt.)
\<close>

theorem no_downloads_reports_100:
  "(case read_file False (map ln
            [''#### start_qmodem 01-02-25 10:00:00'',
             ''#### start_dial 01-02-25 10:00:01'',
             ''#### connected 01-02-25 10:00:20'',
             ''#### end_call 01-02-25 10:00:55'',
             ''#### exit_qmodem 01-02-25 10:00:59'']) of
      Inr (store, c) \<Rightarrow>
        count_download_success c = 0 \<and> count_download_failure c = 0
        \<and> download_success_pct c = Inr (FLit 100)
    | Inl e \<Rightarrow> False)
   \<and> connect_success_percent counters0 = Inr (FLit 0)"
  by code_simp

text \<open>The part of the claim that holds: the percentage never divides by zero.\<close>

lemma download_success_pct_no_zero_division:
  "download_success_pct c \<noteq> Inl ZeroDivisionError"
  by (simp add: download_success_pct_def py_truediv_def)

section \<open>Runs that stop with an exception\<close>

text \<open>
  Claim C4 says that with the direct-serial flag ingestion succeeds and every record
  is of kind DIRECT_SERIAL. On the code, the first \<open>start_qmodem\<close> marker of such a
  run raises \<open>AttributeError\<close> (the enumeration has no member \<open>DIRECT\<close>), so no
  record is ever stored.
\<close>

theorem nullmodem_start_qmodem_raises:
  "read_file True [ln ''#### start_qmodem 01-02-25 10:00:00''] = Inl AttributeError"
  by code_simp

text \<open>
  Claim C2 says that a \<open>connected\<close> marker with no record open is ignored and the run
  completes. On the code, the assignment to the absent record raises
  \<open>AttributeError\<close>, and the well-formed call that follows is never read.
\<close>

theorem stray_connected_raises:
  "read_file False (map ln
     [''#### connected 01-02-25 09:59:00'',
      ''#### start_qmodem 01-02-25 10:00:00'',
      ''#### start_dial 01-02-25 10:00:01'',
      ''#### connected 01-02-25 10:00:20'',
      ''### start_download 01-02-25 10:00:30'',
      ''### end_download 01-02-25 10:00:50'',
      ''test.bin - SUCCESSFUL!  CPS = 3,200'',
      ''#### end_call 01-02-25 10:00:55'',
      ''#### exit_qmodem 01-02-25 10:00:59'']) = Inl AttributeError"
  by code_simp

section \<open>The welcome banner\<close>

text \<open>
  Claim C5 says that a banner line sets \<open>remote_connect_bps\<close> to the speed and
  \<open>remote_reliable\<close> and \<open>remote_ansi\<close> to boolean flags for the two fragments. On
  the code the speed is stored, \<open>remote_reliable\<close> receives the matched text, and the
  ANSI group goes to an attribute of another name, so \<open>remote_ansi\<close> stays unset even
  when the fragment is there. With a blank after \<open>bps.\<close> neither optional group
  matches and both stay unset.
\<close>

theorem banner_flags_not_set:
  "(case read_file False (map ln [''#### start_qmodem 01-02-25 10:00:00'',
        ''Connected at 28800 bps.Reliable connection. ANSI detected.'']) of
      Inr ([r], c) \<Rightarrow> remote_connect_bps r = Some 28800
                      \<and> remote_reliable r = Some ''Reliable connection. ''
                      \<and> remote_ansi_detected r = Some ''ANSI detected.''
                      \<and> remote_ansi r = None
    | _ \<Rightarrow> False)
   \<and> (case read_file False (map ln [''#### start_qmodem 01-02-25 10:00:00'',
        ''Connected at 28800 bps. Reliable connection. ANSI detected.'']) of
      Inr ([r], c) \<Rightarrow> remote_connect_bps r = Some 28800
                      \<and> remote_reliable r = None \<and> remote_ansi r = None
    | _ \<Rightarrow> False)"
  by code_simp

section \<open>Aborted calls that never connected\<close>

text \<open>
  Claim C10: a record whose \<open>aborted_time\<close> is set and whose \<open>connect_time\<close> is absent
  can come out of ingestion (a \<open>start_qmodem\<close> marker followed by an \<open>aborting\<close>
  marker with no \<open>connected\<close> marker between them), and on every such record of a
  store that ingestion returns, \<open>termination_reason\<close> and \<open>call_duration\<close> raise
  (\<open>TypeError\<close>, from subtracting the missing \<open>connect_time\<close>) instead of returning a
  classification or \<open>None\<close>.
\<close>

theorem aborted_without_connect_raises:
  assumes "read_file nm lines = Inr (store, c)" and "r \<in> set store"
    and "aborted_time r \<noteq> None" and "connect_time r = None"
  shows "termination_reason r = Inl TypeError \<and> call_duration r = Inl TypeError"
  using read_file_modem [OF assms(1,2)] assms(3,4)
  by (auto simp: termination_reason_def call_duration_def secs_between_def
      split: option.splits)

text \<open>Such a record is reached from a two-line log.\<close>

theorem aborted_without_connect_raises_witness:
  "read_file False (map ln [''#### start_qmodem 01-02-25 10:00:00'',
                            ''### aborting 01-02-25 10:00:09, NO CARRIER''])
     = Inr ([new_record\<lparr>
               start_qmodem := Some \<lparr>dt_year = 2025, dt_month = 1, dt_day = 2,
                                     dt_hour = 10, dt_minute = 0, dt_second = 0\<rparr>,
               aborted_time := Some \<lparr>dt_year = 2025, dt_month = 1, dt_day = 2,
                                     dt_hour = 10, dt_minute = 0, dt_second = 9\<rparr>,
               abort_reason := Some ''NO CARRIER''\<rparr>],
            counters0\<lparr>count_start_dial := 1\<rparr>)
   \<and> termination_reason (new_record\<lparr>
               start_qmodem := Some \<lparr>dt_year = 2025, dt_month = 1, dt_day = 2,
                                     dt_hour = 10, dt_minute = 0, dt_second = 0\<rparr>,
               aborted_time := Some \<lparr>dt_year = 2025, dt_month = 1, dt_day = 2,
                                     dt_hour = 10, dt_minute = 0, dt_second = 9\<rparr>,
               abort_reason := Some ''NO CARRIER''\<rparr>) = Inl TypeError
   \<and> call_duration (new_record\<lparr>
               start_qmodem := Some \<lparr>dt_year = 2025, dt_month = 1, dt_day = 2,
                                     dt_hour = 10, dt_minute = 0, dt_second = 0\<rparr>,
               aborted_time := Some \<lparr>dt_year = 2025, dt_month = 1, dt_day = 2,
                                     dt_hour = 10, dt_minute = 0, dt_second = 9\<rparr>,
               abort_reason := Some ''NO CARRIER''\<rparr>) = Inl TypeError"
proof -
  let ?r = "new_record\<lparr>
               start_qmodem := Some \<lparr>dt_year = 2025, dt_month = 1, dt_day = 2,
                                     dt_hour = 10, dt_minute = 0, dt_second = 0\<rparr>,
               aborted_time := Some \<lparr>dt_year = 2025, dt_month = 1, dt_day = 2,
                                     dt_hour = 10, dt_minute = 0, dt_second = 9\<rparr>,
               abort_reason := Some ''NO CARRIER''\<rparr>"
  have run: "read_file False (map ln [''#### start_qmodem 01-02-25 10:00:00'',
                            ''### aborting 01-02-25 10:00:09, NO CARRIER''])
     = Inr ([?r], counters0\<lparr>count_start_dial := 1\<rparr>)"
    by code_simp
  have mem: "?r \<in> set [?r]" by simp
  have ab: "aborted_time ?r \<noteq> None" by simp
  have co: "connect_time ?r = None" by (simp add: new_record_def)
  show ?thesis
    using run aborted_without_connect_raises [OF run mem ab co] by simp
qed

section \<open>The attempt and connected counters\<close>

text \<open>
  Claim C6, as stated, has the connected counter at most the attempt counter after
  every log. A call with two \<open>connected\<close> marker lines counts twice: one attempt,
  two connections.
\<close>

theorem connected_counter_counterexample:
  "(case read_file False (map ln [''#### start_qmodem 01-02-25 10:00:00'',
                                  ''#### connected 01-02-25 10:00:20'',
                                  ''#### connected 01-02-25 10:00:21'']) of
      Inr (store, c) \<Rightarrow> count_start_dial c = 1 \<and> count_connected c = 2
                        \<and> \<not> count_connected c \<le> count_start_dial c
    | Inl e \<Rightarrow> False)"
  by code_simp


text \<open>
  Claim C6, amended: for every input log on which ingestion completes, the attempt
  counter equals the number of \<open>start_qmodem\<close> marker lines and the connected counter
  equals the number of lines that take the \<open>connected\<close> branch; the connected counter
  is at most the attempt counter when no call of the log has more than one
  \<open>connected\<close> marker line; the connect success percentage is \<open>0.0\<close> when the
  attempt counter is 0, and is never a division by zero.
\<close>

theorem counters_after_ingestion:
  assumes "read_file nm lines = Inr (store, c)"
  shows "count_start_dial c = length (filter is_start_qmodem_line lines)
         \<and> count_connected c = length (filter is_connected_line lines)
         \<and> (single_connect False lines \<longrightarrow> count_connected c \<le> count_start_dial c)
         \<and> (count_start_dial c = 0 \<longrightarrow> connect_success_percent c = Inr (FLit 0))
         \<and> connect_success_percent c \<noteq> Inl ZeroDivisionError"
proof -
  from assms obtain st where l: "read_loop nm lines lstate0 = Inr st"
    and c: "c = ctrs (save_last st)"
    by (auto simp: read_file_def bindE_eq_Inr)
  have c': "c = ctrs st"
    using c by (simp add: save_last_def split: option.splits)
  have z: "count_start_dial (ctrs lstate0) = 0" "count_connected (ctrs lstate0) = 0"
    "cur_record lstate0 = None"
    by (simp_all add: lstate0_def counters0_def)
  have a: "count_start_dial c = length (filter is_start_qmodem_line lines)"
    and b: "count_connected c = length (filter is_connected_line lines)"
    using read_loop_counts [OF l] z c' by simp_all
  have s: "single_connect False lines \<Longrightarrow> count_connected c \<le> count_start_dial c"
    using read_loop_single_connect [OF l, of False] z c' by simp
  have p: "(count_start_dial c = 0 \<longrightarrow> connect_success_percent c = Inr (FLit 0))
           \<and> connect_success_percent c \<noteq> Inl ZeroDivisionError"
    by (simp add: connect_success_percent_def py_truediv_def)
  show ?thesis using a b s p by blast
qed

theorem counters_after_ingestion_witness:
  "read_file False (map ln [''#### start_qmodem 01-02-25 10:00:00'',
                            ''#### connected 01-02-25 10:00:20''])
     = Inr ([new_record\<lparr>
               connected := Some True,
               start_qmodem := Some \<lparr>dt_year = 2025, dt_month = 1, dt_day = 2,
                                     dt_hour = 10, dt_minute = 0, dt_second = 0\<rparr>,
               connect_time := Some \<lparr>dt_year = 2025, dt_month = 1, dt_day = 2,
                                     dt_hour = 10, dt_minute = 0, dt_second = 20\<rparr>\<rparr>],
            counters0\<lparr>count_start_dial := 1, count_connected := 1\<rparr>)
   \<and> single_connect False (map ln [''#### start_qmodem 01-02-25 10:00:00'',
                                   ''#### connected 01-02-25 10:00:20''])
   \<and> count_connected (counters0\<lparr>count_start_dial := 1, count_connected := 1\<rparr>)
       \<le> count_start_dial (counters0\<lparr>count_start_dial := 1, count_connected := 1\<rparr>)
   \<and> read_file False [ln ''NO CARRIER''] = Inr ([], counters0)
   \<and> count_start_dial counters0 = 0
   \<and> connect_success_percent counters0 = Inr (FLit 0)"
proof -
  have run: "read_file False (map ln [''#### start_qmodem 01-02-25 10:00:00'',
                            ''#### connected 01-02-25 10:00:20''])
     = Inr ([new_record\<lparr>
               connected := Some True,
               start_qmodem := Some \<lparr>dt_year = 2025, dt_month = 1, dt_day = 2,
                                     dt_hour = 10, dt_minute = 0, dt_second = 0\<rparr>,
               connect_time := Some \<lparr>dt_year = 2025, dt_month = 1, dt_day = 2,
                                     dt_hour = 10, dt_minute = 0, dt_second = 20\<rparr>\<rparr>],
            counters0\<lparr>count_start_dial := 1, count_connected := 1\<rparr>)"
    by code_simp
  have single: "single_connect False (map ln [''#### start_qmodem 01-02-25 10:00:00'',
                                   ''#### connected 01-02-25 10:00:20''])"
    by code_simp
  have quiet: "read_file False [ln ''NO CARRIER''] = Inr ([], counters0)"
    by code_simp
  have zero: "count_start_dial counters0 = 0"
    by (simp add: counters0_def)
  show ?thesis
    using run single quiet zero counters_after_ingestion [OF run]
      counters_after_ingestion [OF quiet]
    by simp
qed

section \<open>End-of-input finalization\<close>



section \<open>An unsuccessful download result\<close>

text \<open>
  Claim C8, as stated, has \<open>download_cps\<close> absent, never zero, after an
  \<open>UNSUCCESSFUL.\<close> result line with no CPS group, for every open record. The branch
  never clears \<open>download_cps\<close>: a record that took \<open>CPS = 0\<close> from an earlier
  SUCCESSFUL line of the same call ends with \<open>download_success\<close> false and
  \<open>download_cps\<close> zero.
\<close>

theorem unsuccessful_after_cps_counterexample:
  "download_result_of (ln ''b.bin - UNSUCCESSFUL.'') = Some [(1, ''UNSUCCESSFUL.'')]
   \<and> (case read_file False (map ln [''#### start_qmodem 01-02-25 10:00:00'',
                                     ''a.bin - SUCCESSFUL!  CPS = 0'',
                                     ''b.bin - UNSUCCESSFUL.'']) of
         Inr ([r], c) \<Rightarrow> download_success r = Some False \<and> download_cps r = Some 0
       | _ \<Rightarrow> False)"
  by code_simp

text \<open>
  Claim C8, amended: with a record open, a line that takes the download-result branch
  with the status text \<open>UNSUCCESSFUL.\<close> and no CPS group sets \<open>download_success\<close> of
  the record to false, counts one download failure, and leaves \<open>download_cps\<close> as it
  was before the line: absent if it was absent; the line itself never sets it, to
  zero or to anything else.
\<close>

theorem unsuccessful_result_no_cps:
  assumes "cur_record st = Some r"
    and "download_result_of line = Some m"
    and "group m 1 = Some ''UNSUCCESSFUL.''"
    and "group m 2 = None"
  shows "step nm line st
           = Inr (st\<lparr>cur_record := Some (r\<lparr>download_success := Some False\<rparr>),
                     ctrs := (ctrs st)\<lparr>count_download_failure :=
                                          count_download_failure (ctrs st) + 1\<rparr>\<rparr>)
         \<and> download_success (r\<lparr>download_success := Some False\<rparr>) = Some False
         \<and> download_cps (r\<lparr>download_success := Some False\<rparr>) = download_cps r
         \<and> (download_cps r = None
              \<longrightarrow> download_cps (r\<lparr>download_success := Some False\<rparr>) = None)"
proof -
  have none: "re_search r_start_qmodem line = None" "re_search r_abort line = None"
    "re_search r_start_dial line = None" "re_search r_connected line = None"
    "re_search r_wc_banner line = None" "re_search r_start_download line = None"
    "re_search r_end_download line = None"
    and m: "re_search r_dl_status_cps line = Some m"
    using assms(2) by (auto simp: download_result_of_def split: if_splits)
  have "step nm line st = on_download_result m st"
    by (simp add: step_def none m)
  then show ?thesis
    using assms(1,3,4)
    by (simp add: on_download_result_def mark_download_success_def Let_def)
qed

theorem unsuccessful_result_no_cps_witness:
  "download_result_of (ln ''test.bin - UNSUCCESSFUL.'') = Some [(1, ''UNSUCCESSFUL.'')]
   \<and> step False (ln ''test.bin - UNSUCCESSFUL.'') (lstate0\<lparr>cur_record := Some new_record\<rparr>)
       = Inr (lstate0\<lparr>cur_record := Some (new_record\<lparr>download_success := Some False\<rparr>),
                     ctrs := counters0\<lparr>count_download_failure := 1\<rparr>\<rparr>)
   \<and> download_cps (new_record\<lparr>download_success := Some False\<rparr>) = None"
proof -
  have c: "cur_record (lstate0\<lparr>cur_record := Some new_record\<rparr>) = Some new_record"
    by simp
  have d: "download_result_of (ln ''test.bin - UNSUCCESSFUL.'') = Some [(1, ''UNSUCCESSFUL.'')]"
    by code_simp
  have g1: "group [(1, ''UNSUCCESSFUL.'')] 1 = Some ''UNSUCCESSFUL.''"
    by (simp add: group_def)
  have g2: "group [(1::nat, ''UNSUCCESSFUL.'')] 2 = None"
    by (simp add: group_def)
  show ?thesis
    using d unsuccessful_result_no_cps [OF c d g1 g2, of False]
    by (simp add: lstate0_def counters0_def new_record_def)
qed
section \<open>One complete call\<close>

text \<open>
  Claim C1 says that for every well-formed log of one complete call sequence
  (\<open>start_qmodem\<close>, \<open>start_dial\<close>, \<open>connected\<close>, \<open>start_download\<close>, \<open>end_download\<close>
  with a SUCCESSFUL result line, \<open>end_call\<close>, \<open>exit_qmodem\<close>, valid non-decreasing
  timestamps) ingestion yields a store of exactly one record with \<open>connected\<close> and
  \<open>download_success\<close> true and the three durations present and non-negative. The
  claim names no mode. On the code, such a log read with the direct-serial flag
  raises \<open>AttributeError\<close> at its first line and yields no store (the defect of the
  \<open>start_qmodem\<close> branch, \<open>ConnectionType.DIRECT\<close>).
\<close>

theorem single_call_nullmodem_raises:
  "read_file True
     (call_log ''01-02-25 10:00:00'' ''01-02-25 10:00:01'' ''01-02-25 10:00:20''
        ''01-02-25 10:00:30'' ''01-02-25 10:00:50''
        (ln ''test.bin - SUCCESSFUL!  CPS = 3,200'')
        ''01-02-25 10:00:55'' ''01-02-25 10:00:59'') = Inl AttributeError"
  by code_simp

text \<open>
  Without the flag the claim holds on the logs that the dialling script writes: the
  seven marker lines with any timestamps that parse and do not decrease, and any line
  that the code takes as a SUCCESSFUL download result.
\<close>

lemma single_call_ingested_modem:
  assumes "parse_log_ts t1 = Inr w1" and "parse_log_ts t2 = Inr w2"
    and "parse_log_ts t3 = Inr w3" and "parse_log_ts t4 = Inr w4"
    and "parse_log_ts t5 = Inr w5" and "parse_log_ts t6 = Inr w6"
    and "parse_log_ts t7 = Inr w7"
    and "sorted (map dt_secs [w1, w2, w3, w4, w5, w6, w7])"
    and "successful_result res"
  shows "\<exists>r. read_file False (call_log t1 t2 t3 t4 t5 res t6 t7)
               = Inr ([r], \<lparr>count_start_dial = 1, count_connected = 1,
                            count_download_failure = 0, count_download_success = 1\<rparr>)
             \<and> connected r = Some True \<and> download_success r = Some True
             \<and> handshake_duration r = Inr (Some (dt_secs w3 - dt_secs w2))
             \<and> 0 \<le> dt_secs w3 - dt_secs w2
             \<and> download_duration r = Inr (Some (dt_secs w5 - dt_secs w4))
             \<and> 0 \<le> dt_secs w5 - dt_secs w4
             \<and> call_duration r = Inr (Some (dt_secs w6 - dt_secs w3))
             \<and> 0 \<le> dt_secs w6 - dt_secs w3"
proof -
  note sh = assms(1-7) [THEN parse_log_ts_shape]
  define r5 where
    "r5 = new_record\<lparr>connect_type := MODEM, start_qmodem := Some w1, start_dial := Some w2,
                      connect_time := Some w3, connected := Some True,
                      start_download := Some w4, end_download := Some w5\<rparr>"
  define s5 where
    "s5 = lstate0\<lparr>cur_record := Some r5,
                   ctrs := \<lparr>count_start_dial = 1, count_connected = 1,
                           count_download_failure = 0, count_download_success = 0\<rparr>\<rparr>"
  have first: "read_loop False [marker_line ''#### start_qmodem'' t1, marker_line ''#### start_dial'' t2,
                 marker_line ''#### connected'' t3, marker_line ''### start_download'' t4,
                 marker_line ''### end_download'' t5] lstate0 = Inr s5"
    by (simp add: step_start_qmodem step_start_dial step_connected step_start_download
          step_end_download sh assms(1-5) on_start_qmodem_def on_start_dial_def
          on_connected_def on_start_download_def on_end_download_def set_field_def
          mark_connected_def post_init_def lstate0_def counters0_def Let_def s5_def r5_def)
  have "cur_record s5 = Some r5" by (simp add: s5_def)
  from step_successful_result [OF assms(9) this, of False] obtain x where
    res: "step False res s5
            = Inr (s5\<lparr>cur_record := Some (r5\<lparr>download_success := Some True,
                                              download_cps := x\<rparr>),
                      ctrs := (ctrs s5)\<lparr>count_download_success :=
                                           count_download_success (ctrs s5) + 1\<rparr>\<rparr>)"
    by blast
  define r where
    "r = r5\<lparr>download_success := Some True, download_cps := x, end_call := Some w6,
             exit_qmodem := Some w7\<rparr>"
  have last: "read_loop False [res, marker_line ''#### end_call'' t6, marker_line ''#### exit_qmodem'' t7] s5
                = Inr (lstate0\<lparr>repo := [r],
                        ctrs := \<lparr>count_start_dial = 1, count_connected = 1,
                                count_download_failure = 0, count_download_success = 1\<rparr>\<rparr>)"
    unfolding read_loop.simps res bindE_Inr
    by (simp add: step_end_call step_exit_qmodem sh assms(6,7) on_end_call_def
          on_exit_qmodem_def set_field_def s5_def r_def lstate0_def)
  have "call_log t1 t2 t3 t4 t5 res t6 t7
          = [marker_line ''#### start_qmodem'' t1, marker_line ''#### start_dial'' t2,
             marker_line ''#### connected'' t3, marker_line ''### start_download'' t4,
             marker_line ''### end_download'' t5]
            @ [res, marker_line ''#### end_call'' t6, marker_line ''#### exit_qmodem'' t7]"
    by (simp add: call_log_def)
  then have run: "read_file False (call_log t1 t2 t3 t4 t5 res t6 t7)
                    = Inr ([r], \<lparr>count_start_dial = 1, count_connected = 1,
                                 count_download_failure = 0, count_download_success = 1\<rparr>)"
    by (simp only: read_file_def read_loop_append first last bindE_Inr)
       (simp add: save_last_def lstate0_def)
  have ord: "dt_secs w2 \<le> dt_secs w3" "dt_secs w4 \<le> dt_secs w5" "dt_secs w3 \<le> dt_secs w6"
    using assms(8) by simp_all
  have fields: "connected r = Some True" "download_success r = Some True"
    "connect_type r = MODEM" "start_dial r = Some w2" "connect_time r = Some w3"
    "start_download r = Some w4" "end_download r = Some w5" "end_call r = Some w6"
    by (simp_all add: r_def r5_def)
  have "handshake_duration r = Inr (Some (dt_secs w3 - dt_secs w2))"
    "download_duration r = Inr (Some (dt_secs w5 - dt_secs w4))"
    "call_duration r = Inr (Some (dt_secs w6 - dt_secs w3))"
    by (simp_all add: handshake_duration_def download_duration_def call_duration_def
          secs_between_def fields)
  then show ?thesis
    using run fields(1,2) ord by (intro exI [of _ r]) simp
qed

text \<open>The log of the failing input, read without the flag, with its durations.\<close>

lemma single_call_ingested_modem_example:
  "(case read_file False
           (call_log ''01-02-25 10:00:00'' ''01-02-25 10:00:01'' ''01-02-25 10:00:20''
              ''01-02-25 10:00:30'' ''01-02-25 10:00:50''
              (ln ''test.bin - SUCCESSFUL!  CPS = 3,200'')
              ''01-02-25 10:00:55'' ''01-02-25 10:00:59'') of
      Inr ([r], c) \<Rightarrow>
        connected r = Some True \<and> download_success r = Some True
        \<and> handshake_duration r = Inr (Some 19)
        \<and> download_duration r = Inr (Some 20)
        \<and> call_duration r = Inr (Some 35)
    | _ \<Rightarrow> False)"
proof -
  let ?w = "\<lambda>s. \<lparr>dt_year = 2025, dt_month = 1, dt_day = 2,
                  dt_hour = 10, dt_minute = 0, dt_second = s\<rparr>"
  have p: "parse_log_ts ''01-02-25 10:00:00'' = Inr (?w 0)"
    "parse_log_ts ''01-02-25 10:00:01'' = Inr (?w 1)"
    "parse_log_ts ''01-02-25 10:00:20'' = Inr (?w 20)"
    "parse_log_ts ''01-02-25 10:00:30'' = Inr (?w 30)"
    "parse_log_ts ''01-02-25 10:00:50'' = Inr (?w 50)"
    "parse_log_ts ''01-02-25 10:00:55'' = Inr (?w 55)"
    "parse_log_ts ''01-02-25 10:00:59'' = Inr (?w 59)"
    by code_simp+
  have secs: "\<And>s. dt_secs (?w s) = 63871495200 + s"
    by (simp add: dt_secs_def toordinal_def days_before_year_def days_before_month_def
          days_in_month_def)
  have ord: "sorted (map dt_secs [?w 0, ?w 1, ?w 20, ?w 30, ?w 50, ?w 55, ?w 59])"
    by (simp add: secs)
  have res: "successful_result (ln ''test.bin - SUCCESSFUL!  CPS = 3,200'')"
    by code_simp
  from single_call_ingested_modem [OF p ord res] show ?thesis
    by (auto simp: secs)
qed

section \<open>The diagnostic-block field parser\<close>

text \<open>
  Claim C9: given the raw lines of a block and a label-to-identifier mapping (with no
  empty identifier, as in the two fixed mappings), \<open>parse_output\<close> returns the mapping
  that the specification describes: every entry comes from a label that the mapping
  has and a matched value text, and its value is the integer of the text if the text
  is all digits and the trimmed text otherwise; labels that the mapping does not have
  give no entry. In particular the line
  \<open>Chars sent        1024   Chars Received     2048\<close> under the call-statistics
  mapping gives \<open>chars_tx = 1024\<close> and \<open>chars_rx = 2048\<close>.
\<close>

theorem parse_output_refines_spec:
  assumes "[] \<notin> snd ` set mapping"
  shows "parse_output mapping input_lines = Inr (spec_parse_output mapping input_lines)
         \<and> (\<forall>(k, v) \<in> set (spec_parse_output mapping input_lines).
               \<exists>(label, text) \<in> set (concat (map spec_pairs input_lines)).
                 map_of mapping (strip label) = Some k \<and> v = spec_value text)
         \<and> parse_output ATI6_mapping
               [''Chars sent        1024   Chars Received     2048'']
             = Inr [(''chars_tx'', VInt 1024), (''chars_rx'', VInt 2048)]"
proof -
  have eq: "parse_output mapping input_lines = Inr (spec_parse_output mapping input_lines)"
    by (simp add: parse_output_def spec_parse_output_def parse_lines_spec [OF assms])
  have entries: "\<forall>(k, v) \<in> set (spec_parse_output mapping input_lines).
               \<exists>(label, text) \<in> set (concat (map spec_pairs input_lines)).
                 map_of mapping (strip label) = Some k \<and> v = spec_value text"
    unfolding spec_parse_output_def
    using spec_store_entries [of _ _ mapping "[]"] by fastforce
  have example: "parse_output ATI6_mapping
               [''Chars sent        1024   Chars Received     2048'']
             = Inr [(''chars_tx'', VInt 1024), (''chars_rx'', VInt 2048)]"
    by code_simp
  show ?thesis using eq entries example by blast
qed

text \<open>
  The call-statistics mapping has no empty identifier; a block with a vendor line, a
  number, a text value and an unknown label.
\<close>

theorem parse_output_refines_spec_witness:
  "parse_output ATI6_mapping
     [''USRobotics Courier V.Everything'', ''Speed  28800/26400'',
      ''Protocol   LAPM/V42BIS'', ''Unknown label   12'']
     = Inr [(''speed'', VInt 28800), (''protocol'', VStr ''LAPM/V42BIS'')]
   \<and> spec_parse_output ATI6_mapping
     [''USRobotics Courier V.Everything'', ''Speed  28800/26400'',
      ''Protocol   LAPM/V42BIS'', ''Unknown label   12'']
     = [(''speed'', VInt 28800), (''protocol'', VStr ''LAPM/V42BIS'')]"
proof -
  have ids: "[] \<notin> snd ` set ATI6_mapping"
    by (simp add: ATI6_mapping_def)
  have spec: "spec_parse_output ATI6_mapping
     [''USRobotics Courier V.Everything'', ''Speed  28800/26400'',
      ''Protocol   LAPM/V42BIS'', ''Unknown label   12'']
     = [(''speed'', VInt 28800), (''protocol'', VStr ''LAPM/V42BIS'')]"
    by code_simp
  from parse_output_refines_spec [OF ids] spec show ?thesis
    by simp
qed


end
